theory Spec2Isabelle
  imports Complex_Main
begin

section \<open>Python values used by both analyzers\<close>

text \<open>
  Timestamps, classifier confidences and averages are Python floats in the source. They are
  idealised as real numbers here: comparisons, subtraction of the window constants and the
  mean \<open>sum(xs) / len(xs)\<close> are taken exactly.
\<close>

subsection \<open>Dictionaries\<close>

text \<open>
  A Python \<open>dict\<close> keeps its keys in insertion order, and the detectors iterate over
  \<open>items()\<close>, so a dictionary is an association list with distinct keys, oldest key first.
\<close>

type_synonym ('k, 'v) dict = "('k \<times> 'v) list"

definition dict_keys :: "('k, 'v) dict \<Rightarrow> 'k list" where
  "dict_keys d = map fst d"

definition dict_ok :: "('k, 'v) dict \<Rightarrow> bool" where
  "dict_ok d = distinct (map fst d)"

text \<open>\<open>d[k] = v\<close>: an existing key keeps its position, a new key goes to the end.\<close>

fun dict_set :: "'k \<Rightarrow> 'v \<Rightarrow> ('k, 'v) dict \<Rightarrow> ('k, 'v) dict" where
  "dict_set k v [] = [(k, v)]"
| "dict_set k v (e # d) = (if fst e = k then (k, v) # d else e # dict_set k v d)"

text \<open>\<open>del d[k]\<close>.\<close>

definition dict_del :: "'k \<Rightarrow> ('k, 'v) dict \<Rightarrow> ('k, 'v) dict" where
  "dict_del k d = filter (\<lambda>e. fst e \<noteq> k) d"

text \<open>
  \<open>if k not in d: d[k] = []\<close> followed by \<open>d[k].append(v)\<close>, the idiom of every
  tracker of the source.
\<close>

definition dict_append :: "'k \<Rightarrow> 'v \<Rightarrow> ('k, 'v list) dict \<Rightarrow> ('k, 'v list) dict" where
  "dict_append k v d =
     (case map_of d k of
        None \<Rightarrow> dict_set k [v] d
      | Some vs \<Rightarrow> dict_set k (vs @ [v]) d)"

subsection \<open>Strings and integers\<close>

definition digit_char :: "nat \<Rightarrow> char" where
  "digit_char d = ''0123456789'' ! d"

text \<open>\<open>str(n)\<close> for a non-negative integer, and for any integer.\<close>

fun show_nat :: "nat \<Rightarrow> string" where
  "show_nat n = (if n < 10 then [digit_char n] else show_nat (n div 10) @ [digit_char (n mod 10)])"

declare show_nat.simps [simp del]

definition show_int :: "int \<Rightarrow> string" where
  "show_int i = (if i < 0 then CHR ''-'' # show_nat (nat (- i)) else show_nat (nat i))"

definition digit_val :: "char \<Rightarrow> nat option" where
  "digit_val c =
     (let n = (of_char c :: nat) in if 48 \<le> n \<and> n \<le> 57 then Some (n - 48) else None)"

fun read_digits :: "nat \<Rightarrow> string \<Rightarrow> nat option" where
  "read_digits acc [] = Some acc"
| "read_digits acc (c # cs) =
     (case digit_val c of None \<Rightarrow> None | Some d \<Rightarrow> read_digits (10 * acc + d) cs)"

definition read_nat :: "string \<Rightarrow> nat option" where
  "read_nat s = (if s = [] then None else read_digits 0 s)"

text \<open>
  \<open>int(s)\<close> on a string, \<open>None\<close> standing for \<open>ValueError\<close>. The source calls it only on
  the last field of a flow key, which \<open>str\<close> of an integer produced, so only the plain
  form (an optional sign and decimal digits) is read; the other spellings Python accepts
  (surrounding blanks, underscores between digits) are rejected here.
\<close>

definition py_int :: "string \<Rightarrow> int option" where
  "py_int s =
     (case s of
        [] \<Rightarrow> None
      | c # cs \<Rightarrow>
          if c = CHR ''-'' then map_option (\<lambda>n. - int n) (read_nat cs)
          else if c = CHR ''+'' then map_option int (read_nat cs)
          else map_option int (read_nat s))"

text \<open>\<open>s.split(c)\<close> for a one-character separator: never empty, one more field than separators.\<close>

fun split_on :: "char \<Rightarrow> string \<Rightarrow> string list" where
  "split_on c [] = [[]]"
| "split_on c (x # xs) =
     (if x = c then [] # split_on c xs
      else (x # hd (split_on c xs)) # tl (split_on c xs))"

text \<open>
  \<open>format(x, '.2f')\<close>: two decimals, correctly rounded (ties to even) from the exact value.
\<close>

definition round_half_even :: "real \<Rightarrow> int" where
  "round_half_even x =
     (let f = \<lfloor>x\<rfloor>; r = x - of_int f
      in if r < 1 / 2 then f else if 1 / 2 < r then f + 1 else if even f then f else f + 1)"

definition format_2f :: "real \<Rightarrow> string" where
  "format_2f x =
     (let n = nat (round_half_even (\<bar>x\<bar> * 100))
      in (if x < 0 then ''-'' else []) @ show_nat (n div 100) @ ''.''
           @ [digit_char (n mod 100 div 10), digit_char (n mod 10)])"

subsection \<open>Events, alerts and the address library\<close>

text \<open>
  An event is a Python dict read only through \<open>packet.get(key, default)\<close>; a field is
  \<open>None\<close> when the key is absent. Only the keys read by the code modelled here are kept.
\<close>

record packet =
  src :: "string option"
  dst :: "string option"
  dport :: "int option"
  psize :: "int option"
  frame_type :: "string option"
  frame_subtype :: "string option"
  src_mac :: "string option"

definition get_or :: "'a option \<Rightarrow> 'a \<Rightarrow> 'a" where
  "get_or field dflt = (case field of None \<Rightarrow> dflt | Some v \<Rightarrow> v)"

record alert =
  timestamp :: real
  alert_type :: string
  severity :: string
  source :: string
  description :: string

datatype error = ValueError

text \<open>
  The standard library's \<open>ipaddress.ip_address(ip).is_private\<close> is not code of the
  repository: it is a parameter, \<open>None\<close> where \<open>ip_address\<close> raises \<open>ValueError\<close>.
\<close>

type_synonym ipaddress = "string \<Rightarrow> bool option"

definition is_internal_ip :: "ipaddress \<Rightarrow> string \<Rightarrow> bool" where
  "is_internal_ip lib ip = (case lib ip of None \<Rightarrow> False | Some private \<Rightarrow> private)"

section \<open>NetworkAnalyzer (network\_analyzer.py)\<close>

record network_analyzer =
  ip_port_access :: "(string, (real \<times> int) list) dict"
  deauth_frames :: "(string, real list) dict"

definition port_scan_threshold :: nat where "port_scan_threshold = 10"
definition port_scan_window :: nat where "port_scan_window = 5"
definition deauth_threshold :: nat where "deauth_threshold = 5"
definition deauth_window :: nat where "deauth_window = 3"

definition network_analyzer_init :: network_analyzer where
  "network_analyzer_init = \<lparr>ip_port_access = [], deauth_frames = []\<rparr>"

definition suspicious_ports :: "(int, string) dict" where
  "suspicious_ports = [(22, ''SSH''), (3389, ''RDP''), (445, ''SMB'')]"

subsection \<open>The body of the per-packet loop of \<open>analyze\<close>\<close>

definition track_port_access ::
  "real \<Rightarrow> packet \<Rightarrow> (string, (real \<times> int) list) dict \<Rightarrow> (string, (real \<times> int) list) dict" where
  "track_port_access current_time p d =
     (let src_ip = get_or (src p) []; dst_port = get_or (dport p) 0
      in if src_ip \<noteq> [] then dict_append src_ip (current_time, dst_port) d else d)"

definition track_deauth :: "real \<Rightarrow> packet \<Rightarrow> (string, real list) dict \<Rightarrow> (string, real list) dict" where
  "track_deauth current_time p d =
     (if get_or (frame_type p) [] = ''management'' \<and> get_or (frame_subtype p) [] = ''deauth''
         \<and> get_or (src_mac p) [] \<noteq> []
      then dict_append (get_or (src_mac p) []) current_time d else d)"

definition attack_port_alerts :: "ipaddress \<Rightarrow> real \<Rightarrow> packet \<Rightarrow> alert list" where
  "attack_port_alerts lib current_time p =
     (let src_ip = get_or (src p) []; dst_port = get_or (dport p) 0
      in case map_of suspicious_ports dst_port of
           None \<Rightarrow> []
         | Some service \<Rightarrow>
             if src_ip \<noteq> [] \<and> \<not> is_internal_ip lib src_ip
             then [\<lparr>timestamp = current_time,
                    alert_type = service @ '' Access Attempt'',
                    severity = ''medium'',
                    source = ''network_traffic'',
                    description = ''External IP '' @ src_ip @ '' attempting to connect to ''
                      @ service @ '' port '' @ show_int dst_port\<rparr>]
             else [])"

definition track_packet :: "real \<Rightarrow> network_analyzer \<Rightarrow> packet \<Rightarrow> network_analyzer" where
  "track_packet current_time s p =
     \<lparr>ip_port_access = track_port_access current_time p (ip_port_access s),
      deauth_frames = track_deauth current_time p (deauth_frames s)\<rparr>"

definition analyze_packet ::
  "ipaddress \<Rightarrow> real \<Rightarrow> network_analyzer \<times> alert list \<Rightarrow> packet \<Rightarrow> network_analyzer \<times> alert list" where
  "analyze_packet lib current_time acc p =
     (track_packet current_time (fst acc) p, snd acc @ attack_port_alerts lib current_time p)"

subsection \<open>The window detectors\<close>

definition port_scan_alerts :: "real \<Rightarrow> string \<Rightarrow> (real \<times> int) list \<Rightarrow> alert list" where
  "port_scan_alerts current_time ip accesses =
     (let recent_accesses = filter (\<lambda>a. fst a > current_time - real port_scan_window) accesses;
          unique_ports = remdups (map snd recent_accesses)
      in if length unique_ports \<ge> port_scan_threshold
         then [\<lparr>timestamp = current_time,
                alert_type = ''Potential Port Scan'',
                severity = ''high'',
                source = ''network_traffic'',
                description = ''IP '' @ ip @ '' accessed '' @ show_nat (length unique_ports)
                  @ '' different ports in '' @ show_nat port_scan_window @ '' seconds''\<rparr>]
         else [])"

definition detect_port_scans :: "real \<Rightarrow> (string, (real \<times> int) list) dict \<Rightarrow> alert list" where
  "detect_port_scans current_time d =
     concat (map (\<lambda>(ip, accesses). port_scan_alerts current_time ip accesses) d)"

definition deauth_alerts :: "real \<Rightarrow> string \<Rightarrow> real list \<Rightarrow> alert list" where
  "deauth_alerts current_time mac timestamps =
     (let recent_frames = filter (\<lambda>t. t > current_time - real deauth_window) timestamps
      in if length recent_frames \<ge> deauth_threshold
         then [\<lparr>timestamp = current_time,
                alert_type = ''WiFi Deauthentication Attack'',
                severity = ''high'',
                source = ''network_traffic'',
                description = ''Possible deauthentication attack detected from MAC '' @ mac
                  @ '': '' @ show_nat (length recent_frames) @ '' deauth frames in ''
                  @ show_nat deauth_window @ '' seconds''\<rparr>]
         else [])"

definition detect_deauth_attacks :: "real \<Rightarrow> (string, real list) dict \<Rightarrow> alert list" where
  "detect_deauth_attacks current_time d =
     concat (map (\<lambda>(mac, timestamps). deauth_alerts current_time mac timestamps) d)"

subsection \<open>Cleanup\<close>

text \<open>
  One cleanup loop serves both trackers: for each key of the snapshot \<open>list(d.keys())\<close>,
  \<open>d[k]\<close> is replaced by its entries that pass the test, and the key is deleted when
  nothing is left. The key read is in the dictionary (it comes from the snapshot and only
  its own iteration deletes it), so the read never raises; the model reads a key that is
  not there as the empty list, which the same iteration deletes again.
\<close>

fun cleanup_loop :: "('v \<Rightarrow> bool) \<Rightarrow> 'k list \<Rightarrow> ('k, 'v list) dict \<Rightarrow> ('k, 'v list) dict" where
  "cleanup_loop keep [] d = d"
| "cleanup_loop keep (k # ks) d =
     (let d1 = dict_set k (filter keep (get_or (map_of d k) [])) d;
          d2 = (if get_or (map_of d1 k) [] = [] then dict_del k d1 else d1)
      in cleanup_loop keep ks d2)"

definition cleanup_old_entries :: "real \<Rightarrow> network_analyzer \<Rightarrow> network_analyzer" where
  "cleanup_old_entries cutoff_time s =
     \<lparr>ip_port_access =
        cleanup_loop (\<lambda>a. fst a > cutoff_time) (dict_keys (ip_port_access s)) (ip_port_access s),
      deauth_frames =
        cleanup_loop (\<lambda>t. t > cutoff_time) (dict_keys (deauth_frames s)) (deauth_frames s)\<rparr>"

subsection \<open>\<open>analyze\<close>\<close>

text \<open>\<open>current_time\<close> is the value \<open>time.time()\<close> returned in this call.\<close>

definition analyze ::
  "ipaddress \<Rightarrow> real \<Rightarrow> packet list \<Rightarrow> network_analyzer \<Rightarrow> alert list \<times> network_analyzer" where
  "analyze lib current_time network_data s =
     (if network_data = [] then ([], s)
      else
        (case foldl (analyze_packet lib current_time) (s, []) network_data of
           (s1, alerts) \<Rightarrow>
             (alerts @ detect_port_scans current_time (ip_port_access s1)
                @ detect_deauth_attacks current_time (deauth_frames s1),
              cleanup_old_entries (current_time - 60) s1)))"

section \<open>MLNetworkAnalyzer (ml\_network\_analyzer.py)\<close>

record ip_stats =
  packets :: nat
  last_seen :: real
  scores :: "real list"

record ml_network_analyzer =
  packet_history :: "packet list"
  ip_behavior :: "(string, ip_stats) dict"

definition history_limit :: nat where "history_limit = 1000"
definition batch_size :: nat where "batch_size = 64"
definition anomaly_threshold :: real where "anomaly_threshold = 85 / 100"
definition probability_threshold :: real where "probability_threshold = 75 / 100"

definition attack_types :: "(nat, string) dict" where
  "attack_types =
     [(0, ''Normal Traffic''), (1, ''Port Scan''), (2, ''DoS Attack''), (3, ''Brute Force''),
      (4, ''Data Exfiltration''), (5, ''Command and Control'')]"

definition ml_network_analyzer_init :: ml_network_analyzer where
  "ml_network_analyzer_init = \<lparr>packet_history = [], ip_behavior = []\<rparr>"

subsection \<open>Packet history and per-IP counters\<close>

definition extend_history :: "packet list \<Rightarrow> packet list \<Rightarrow> packet list" where
  "extend_history network_data history =
     (let h = history @ network_data
      in if length h > history_limit then drop (length h - history_limit) h else h)"

definition update_ip_behavior :: "real \<Rightarrow> (string, ip_stats) dict \<Rightarrow> packet \<Rightarrow> (string, ip_stats) dict" where
  "update_ip_behavior current_time d p =
     (let src_ip = get_or (src p) []
      in if src_ip \<noteq> []
         then (let e = get_or (map_of d src_ip) \<lparr>packets = 0, last_seen = 0, scores = []\<rparr>
               in dict_set src_ip (e\<lparr>packets := packets e + 1, last_seen := current_time\<rparr>) d)
         else d)"

subsection \<open>The classifier stage\<close>

text \<open>
  The Keras and scikit-learn models are loaded from files outside the repository. What a
  call of \<open>_run_ml_detection\<close> gets from them is a parameter: for each model, whether it
  is loaded, whether its \<open>predict\<close> (with the reshaping around it) raises, and otherwise
  the predictions it returns; \<open>ml_clock\<close> is the value \<open>time.time()\<close> returns inside
  \<open>_run_ml_detection\<close>. \<open>_extract_features\<close> only prepares the input of \<open>predict\<close>
  and is not modelled.

  The confidences are floats (NumPy single floats or doubles, as the classifier returns
  them), and a float is the real number it denotes. Where the source does arithmetic on
  them that rounds, the result is a parameter too, since it depends on the float format
  and on the NumPy version: \<open>float_mean xs\<close> is the float that
  \<open>sum(xs) / len(xs)\<close> evaluates to, and \<open>float_lit x\<close> is the float with which a
  confidence or a mean is compared where the source writes the decimal literal \<open>x\<close>
  (0.85 and 0.9 are no binary fractions; 0.75 is one, and is compared exactly).
\<close>

datatype 'a model_result = Absent | Raises | Preds "'a list"

record ml_env =
  cnn_model :: "(real list) model_result"
  svm_model :: "real model_result"
  ml_clock :: real
  float_mean :: "real list \<Rightarrow> real"
  float_lit :: "real \<Rightarrow> real"

text \<open>\<open>np.argmax\<close>: the first index of the largest entry; it raises on an empty array.\<close>

fun argmax_from :: "nat \<Rightarrow> real \<Rightarrow> nat \<Rightarrow> real list \<Rightarrow> nat" where
  "argmax_from best bv i [] = best"
| "argmax_from best bv i (x # xs) =
     (if bv < x then argmax_from i x (Suc i) xs else argmax_from best bv (Suc i) xs)"

definition argmax :: "real list \<Rightarrow> nat option" where
  "argmax pred = (case pred of [] \<Rightarrow> None | x # xs \<Rightarrow> Some (argmax_from 0 x 1 xs))"

text \<open>Lines 326 to 332: the score is kept only for an IP that is tracked.\<close>

definition record_score :: "string \<Rightarrow> real \<Rightarrow> (string, ip_stats) dict \<Rightarrow> (string, ip_stats) dict" where
  "record_score src_ip attack_confidence d =
     (case map_of d src_ip of
        None \<Rightarrow> d
      | Some e \<Rightarrow>
          (let sc = scores e @ [attack_confidence];
               sc' = (if length sc > 10 then drop (length sc - 10) sc else sc)
           in dict_set src_ip (e\<lparr>scores := sc'\<rparr>) d))"

definition cnn_alert :: "ml_env \<Rightarrow> packet \<Rightarrow> nat \<Rightarrow> real \<Rightarrow> alert" where
  "cnn_alert env p attack_type_idx attack_confidence =
     \<lparr>timestamp = ml_clock env,
      alert_type = ''ML Detected: '' @ get_or (map_of attack_types attack_type_idx) ''Unknown Attack'',
      severity = (if attack_confidence > float_lit env (9 / 10) then ''high'' else ''medium''),
      source = ''ml_network_analyzer'',
      description = ''ML detected '' @ get_or (map_of attack_types attack_type_idx) ''anomalous traffic''
        @ '' from IP '' @ get_or (src p) ''unknown'' @ '' to '' @ get_or (dst p) ''unknown''
        @ '' (confidence: '' @ format_2f attack_confidence @ '')''\<rparr>"

text \<open>
  The loop over the CNN predictions. The flag is False when \<open>np.argmax\<close> raised: the
  handler around the whole stage then keeps the alerts and scores produced so far.
\<close>

fun cnn_loop ::
  "ml_env \<Rightarrow> packet list \<Rightarrow> nat \<Rightarrow> real list list \<Rightarrow> alert list \<times> (string, ip_stats) dict
     \<Rightarrow> bool \<times> alert list \<times> (string, ip_stats) dict" where
  "cnn_loop env pkts i [] acc = (True, acc)"
| "cnn_loop env pkts i (pred # preds) acc =
     (case argmax pred of
        None \<Rightarrow> (False, acc)
      | Some attack_type_idx \<Rightarrow>
          (let p = (if i < length pkts then pkts ! i else last pkts);
               attack_confidence = pred ! attack_type_idx
           in if attack_type_idx > 0 \<and> attack_confidence > probability_threshold
              then cnn_loop env pkts (Suc i) preds
                     (fst acc @ [cnn_alert env p attack_type_idx attack_confidence],
                      record_score (get_or (src p) []) attack_confidence (snd acc))
              else cnn_loop env pkts (Suc i) preds acc))"

definition svm_alert :: "real \<Rightarrow> packet \<Rightarrow> alert" where
  "svm_alert t p =
     \<lparr>timestamp = t,
      alert_type = ''ML Detected: Suspicious Traffic Pattern'',
      severity = ''medium'',
      source = ''ml_network_analyzer'',
      description = ''SVM model detected suspicious traffic pattern from IP ''
        @ get_or (src p) ''unknown'' @ '' to '' @ get_or (dst p) ''unknown''\<rparr>"

fun svm_loop :: "real \<Rightarrow> packet list \<Rightarrow> nat \<Rightarrow> real list \<Rightarrow> alert list" where
  "svm_loop t pkts i [] = []"
| "svm_loop t pkts i (pred # preds) =
     (let p = (if i < length pkts then pkts ! i else last pkts)
      in (if pred > 0 then [svm_alert t p] else []) @ svm_loop t pkts (Suc i) preds)"

definition svm_stage :: "ml_env \<Rightarrow> packet list \<Rightarrow> alert list" where
  "svm_stage env pkts =
     (case svm_model env of
        Absent \<Rightarrow> []
      | Raises \<Rightarrow> []
      | Preds svm_preds \<Rightarrow> svm_loop (ml_clock env) pkts 0 svm_preds)"

text \<open>
  \<open>features\<close> has one row per packet, so the guard \<open>len(features) == 0\<close> is a test on
  the packets. An exception of the CNN stage skips the SVM stage.
\<close>

definition run_ml_detection ::
  "ml_env \<Rightarrow> packet list \<Rightarrow> (string, ip_stats) dict \<Rightarrow> alert list \<times> (string, ip_stats) dict" where
  "run_ml_detection env pkts d =
     (if pkts = [] then ([], d)
      else
        (case cnn_model env of
           Absent \<Rightarrow> (svm_stage env pkts, d)
         | Raises \<Rightarrow> ([], d)
         | Preds cnn_preds \<Rightarrow>
             (case cnn_loop env pkts 0 cnn_preds ([], d) of
                (ok, alerts, d') \<Rightarrow>
                  if ok then (alerts @ svm_stage env pkts, d') else (alerts, d'))))"

subsection \<open>Flow analysis\<close>

definition flow_key :: "packet \<Rightarrow> string" where
  "flow_key p =
     get_or (src p) [] @ '':'' @ get_or (dst p) [] @ '':'' @ show_int (get_or (dport p) 0)"

definition add_flow :: "(string, packet list) dict \<Rightarrow> packet \<Rightarrow> (string, packet list) dict" where
  "add_flow flows p = dict_append (flow_key p) p flows"

definition group_flows :: "packet list \<Rightarrow> (string, packet list) dict" where
  "group_flows network_data = foldl add_flow [] network_data"

definition brute_force_alerts :: "real \<Rightarrow> string \<Rightarrow> string \<Rightarrow> int \<Rightarrow> packet list \<Rightarrow> alert list" where
  "brute_force_alerts current_time src_ip dst_ip dst_port pkts =
     (if length pkts > 10 \<and> dst_port \<in> set [22, 23, 3389, 445]
      then [\<lparr>timestamp = current_time,
             alert_type = ''Potential Brute Force'',
             severity = ''high'',
             source = ''ml_network_analyzer'',
             description = ''Excessive connection attempts from '' @ src_ip @ '' to '' @ dst_ip
               @ '':'' @ show_int dst_port\<rparr>]
      else [])"

definition large_transfer_alerts ::
  "ipaddress \<Rightarrow> real \<Rightarrow> string \<Rightarrow> string \<Rightarrow> packet list \<Rightarrow> alert list" where
  "large_transfer_alerts lib current_time src_ip dst_ip pkts =
     (if \<not> is_internal_ip lib dst_ip \<and> sum_list (map (\<lambda>p. get_or (psize p) 0) pkts) > 100000
      then [\<lparr>timestamp = current_time,
             alert_type = ''Large Data Transfer'',
             severity = ''medium'',
             source = ''ml_network_analyzer'',
             description = ''Large data transfer from '' @ src_ip @ '' to external IP '' @ dst_ip\<rparr>]
      else [])"

text \<open>
  The arithmetic mean of a score history: the exact value of \<open>sum(scores) / len(scores)\<close>.
  Line 414 computes it in floating point, which is \<open>float_mean\<close>; the two agree where
  no operation rounds, as on a history of one score.
\<close>

definition avg_score :: "real list \<Rightarrow> real" where
  "avg_score sc = sum_list sc / real (length sc)"

definition persistent_alerts ::
  "ml_env \<Rightarrow> real \<Rightarrow> (string, ip_stats) dict \<Rightarrow> string \<Rightarrow> alert list" where
  "persistent_alerts env current_time d src_ip =
     (case map_of d src_ip of
        None \<Rightarrow> []
      | Some e \<Rightarrow>
          if length (scores e) > 0
             \<and> float_mean env (scores e) > float_lit env anomaly_threshold
          then [\<lparr>timestamp = current_time,
                 alert_type = ''Persistent Anomalous Behavior'',
                 severity = ''high'',
                 source = ''ml_network_analyzer'',
                 description = ''IP '' @ src_ip @ '' shows persistent anomalous behavior (score: ''
                   @ format_2f (float_mean env (scores e)) @ '')''\<rparr>]
          else [])"

definition flow_alerts ::
  "ipaddress \<Rightarrow> ml_env \<Rightarrow> real \<Rightarrow> (string, ip_stats) dict \<Rightarrow> string \<Rightarrow> string \<Rightarrow> int
     \<Rightarrow> packet list \<Rightarrow> alert list" where
  "flow_alerts lib env current_time d src_ip dst_ip dst_port pkts =
     brute_force_alerts current_time src_ip dst_ip dst_port pkts
       @ large_transfer_alerts lib current_time src_ip dst_ip pkts
       @ persistent_alerts env current_time d src_ip"

text \<open>
  \<open>src_ip, dst_ip, dst_port = flow_key.split(':')\<close> raises \<open>ValueError\<close> unless the key
  has exactly three fields, and so does \<open>int(dst_port)\<close> on a field that is no integer.
  Nothing in \<open>_analyze_flows\<close> or in \<open>analyze\<close> catches it.
\<close>

definition unpack_flow_key :: "string \<Rightarrow> error + (string \<times> string \<times> int)" where
  "unpack_flow_key key =
     (case split_on CHR '':'' key of
        [src_ip, dst_ip, dst_port] \<Rightarrow>
          (case py_int dst_port of None \<Rightarrow> Inl ValueError | Some n \<Rightarrow> Inr (src_ip, dst_ip, n))
      | _ \<Rightarrow> Inl ValueError)"

fun flows_loop ::
  "ipaddress \<Rightarrow> ml_env \<Rightarrow> real \<Rightarrow> (string, ip_stats) dict \<Rightarrow> (string, packet list) dict
     \<Rightarrow> alert list \<Rightarrow> error + alert list" where
  "flows_loop lib env current_time d [] alerts = Inr alerts"
| "flows_loop lib env current_time d ((key, pkts) # flows) alerts =
     (case unpack_flow_key key of
        Inl e \<Rightarrow> Inl e
      | Inr (src_ip, dst_ip, dst_port) \<Rightarrow>
          flows_loop lib env current_time d flows
            (alerts @ flow_alerts lib env current_time d src_ip dst_ip dst_port pkts))"

definition analyze_flows ::
  "ipaddress \<Rightarrow> ml_env \<Rightarrow> (string, ip_stats) dict \<Rightarrow> packet list \<Rightarrow> real
     \<Rightarrow> error + alert list" where
  "analyze_flows lib env d network_data current_time =
     flows_loop lib env current_time d (group_flows network_data) []"

subsection \<open>Cleanup and \<open>analyze\<close>\<close>

text \<open>
  As in the other cleanup loop, the key read comes from the snapshot of the keys and is
  still in the dictionary; the model leaves the dictionary alone for a key that is not.
\<close>

fun cleanup_data_loop :: "real \<Rightarrow> string list \<Rightarrow> (string, ip_stats) dict \<Rightarrow> (string, ip_stats) dict" where
  "cleanup_data_loop cutoff_time [] d = d"
| "cleanup_data_loop cutoff_time (ip # ips) d =
     cleanup_data_loop cutoff_time ips
       (case map_of d ip of
          None \<Rightarrow> d
        | Some e \<Rightarrow> if last_seen e < cutoff_time then dict_del ip d else d)"

definition cleanup_old_data :: "real \<Rightarrow> (string, ip_stats) dict \<Rightarrow> (string, ip_stats) dict" where
  "cleanup_old_data cutoff_time d = cleanup_data_loop cutoff_time (dict_keys d) d"

text \<open>
  The part of \<open>analyze\<close> that runs before the flow analysis: history, counters and the
  classifier stage (only for a batch of at least \<open>batch_size\<close> packets). It returns the
  classifier's alerts and the state the flow analysis sees.
\<close>

definition ml_ingest ::
  "ml_env \<Rightarrow> real \<Rightarrow> packet list \<Rightarrow> ml_network_analyzer \<Rightarrow> alert list \<times> ml_network_analyzer" where
  "ml_ingest env current_time network_data s =
     (let h = extend_history network_data (packet_history s);
          d1 = foldl (update_ip_behavior current_time) (ip_behavior s) network_data
      in if length network_data \<ge> batch_size
         then (case run_ml_detection env network_data d1 of
                 (ml_alerts, d2) \<Rightarrow> (ml_alerts, \<lparr>packet_history = h, ip_behavior = d2\<rparr>))
         else ([], \<lparr>packet_history = h, ip_behavior = d1\<rparr>))"

text \<open>
  \<open>analyze\<close> returns its alerts or raises; either way the analyzer keeps the state it
  has reached (an exception of the flow analysis leaves out the final cleanup).
\<close>

definition ml_analyze ::
  "ipaddress \<Rightarrow> ml_env \<Rightarrow> real \<Rightarrow> packet list \<Rightarrow> ml_network_analyzer
     \<Rightarrow> (error + alert list) \<times> ml_network_analyzer" where
  "ml_analyze lib env current_time network_data s =
     (if network_data = [] then (Inr [], s)
      else
        (case ml_ingest env current_time network_data s of
           (ml_alerts, s1) \<Rightarrow>
             (case analyze_flows lib env (ip_behavior s1) network_data current_time of
                Inl e \<Rightarrow> (Inl e, s1)
              | Inr fl_alerts \<Rightarrow>
                  (Inr (ml_alerts @ fl_alerts),
                   s1\<lparr>ip_behavior := cleanup_old_data (current_time - 3600) (ip_behavior s1)\<rparr>))))"

section \<open>Flows as values\<close>

text \<open>
  The flow aggregation as the specification words it: the events of one batch grouped by
  the triple (source, destination, destination port), flows in the order of their first
  event, events in arrival order. The flow analysis of the source works on the string key
  instead; the two agree on a batch whose addresses are free of the separator.
\<close>

definition flow_triple :: "packet \<Rightarrow> string \<times> string \<times> int" where
  "flow_triple p = (get_or (src p) [], get_or (dst p) [], get_or (dport p) 0)"

definition first_seen :: "'a list \<Rightarrow> 'a list" where
  "first_seen xs = rev (remdups (rev xs))"

definition flows_of :: "packet list \<Rightarrow> ((string \<times> string \<times> int) \<times> packet list) list" where
  "flows_of network_data =
     map (\<lambda>tr. (tr, filter (\<lambda>p. flow_triple p = tr) network_data))
       (first_seen (map flow_triple network_data))"

definition grouped :: "('a \<Rightarrow> 'k) \<Rightarrow> 'a list \<Rightarrow> ('k, 'a list) dict" where
  "grouped key xs = map (\<lambda>k. (k, filter (\<lambda>x. key x = k) xs)) (first_seen (map key xs))"

definition triple_key :: "string \<times> string \<times> int \<Rightarrow> string" where
  "triple_key tr = (case tr of (s, d, n) \<Rightarrow> s @ '':'' @ d @ '':'' @ show_int n)"

definition plain_triple :: "string \<times> string \<times> int \<Rightarrow> bool" where
  "plain_triple tr = (CHR '':'' \<notin> set (fst tr) \<and> CHR '':'' \<notin> set (fst (snd tr)))"

definition plain_addresses :: "packet list \<Rightarrow> bool" where
  "plain_addresses network_data =
     list_all (\<lambda>p. CHR '':'' \<notin> set (get_or (src p) []) \<and> CHR '':'' \<notin> set (get_or (dst p) []))
       network_data"

text \<open>The events of a batch that carry a source address.\<close>

definition with_src :: "packet list \<Rightarrow> packet list" where
  "with_src network_data = filter (\<lambda>p. get_or (src p) [] \<noteq> []) network_data"

section \<open>Runs and example data\<close>

text \<open>A run of the ML analyzer: one call of \<open>analyze\<close> after the other on the same instance.\<close>

fun ml_run ::
  "ipaddress \<Rightarrow> (ml_env \<times> real \<times> packet list) list \<Rightarrow> ml_network_analyzer \<Rightarrow> ml_network_analyzer" where
  "ml_run lib [] s = s"
| "ml_run lib ((env, current_time, network_data) # calls) s =
     ml_run lib calls (snd (ml_analyze lib env current_time network_data s))"

definition ingested :: "(ml_env \<times> real \<times> packet list) list \<Rightarrow> packet list" where
  "ingested calls = concat (map (\<lambda>c. snd (snd c)) calls)"

text \<open>Recording one score after the other for the same IP.\<close>

definition record_scores :: "string \<Rightarrow> real list \<Rightarrow> (string, ip_stats) dict \<Rightarrow> (string, ip_stats) dict" where
  "record_scores src_ip confidences d = foldl (\<lambda>d' c. record_score src_ip c d') d confidences"

text \<open>
  The answers of the address library on the addresses of the examples below; every other
  string of the examples (the empty string, a host name, an address with a port) is one
  on which \<open>ip_address\<close> raises.
\<close>

definition example_ipaddress :: ipaddress where
  "example_ipaddress =
     map_of [(''8.8.8.8'', False), (''10.0.0.9'', True), (''2606:4700:4700::1111'', False)]"

definition mk_packet :: "string \<Rightarrow> string \<Rightarrow> int \<Rightarrow> int \<Rightarrow> packet" where
  "mk_packet s d p z =
     \<lparr>src = Some s, dst = Some d, dport = Some p, psize = Some z,
      frame_type = None, frame_subtype = None, src_mac = None\<rparr>"

text \<open>
  The float arithmetic of the examples. Their score histories have one entry, whose float
  mean is the entry itself, so the exact mean stands for it; the two decimal literals
  denote the doubles next to them.
\<close>

definition example_float_lit :: "real \<Rightarrow> real" where
  "example_float_lit x =
     (if x = 85 / 100 then 7656119366529843 / 9007199254740992
      else if x = 9 / 10 then 8106479329266893 / 9007199254740992
      else x)"

definition no_models :: ml_env where
  "no_models =
     \<lparr>cnn_model = Absent, svm_model = Absent, ml_clock = 0,
      float_mean = avg_score, float_lit = example_float_lit\<rparr>"

text \<open>
  What the two cleanup loops compute on a dictionary with distinct keys, written without
  the loop: every list cut down to the entries that pass, the keys with nothing left
  removed; and the per-IP entries seen at or after the cutoff.
\<close>

definition kept_entries :: "('v \<Rightarrow> bool) \<Rightarrow> ('k, 'v list) dict \<Rightarrow> ('k, 'v list) dict" where
  "kept_entries keep d = filter (\<lambda>e. snd e \<noteq> []) (map (\<lambda>e. (fst e, filter keep (snd e))) d)"

definition fresh_entries :: "real \<Rightarrow> (string, ip_stats) dict \<Rightarrow> (string, ip_stats) dict" where
  "fresh_entries cutoff d = filter (\<lambda>e. \<not> last_seen (snd e) < cutoff) d"

text \<open>Example states for the cleanup.\<close>

definition example_tracker :: network_analyzer where
  "example_tracker =
     \<lparr>ip_port_access = [(''8.8.8.8'', [(10, 22), (100, 80)]), (''10.0.0.9'', [(5, 443)])],
      deauth_frames = [(''aa:bb:cc:dd:ee:ff'', [1, 99])]\<rparr>"

definition example_behavior :: "(string, ip_stats) dict" where
  "example_behavior =
     [(''8.8.8.8'', \<lparr>packets = 64, last_seen = 1, scores = [8 / 10]\<rparr>),
      (''10.0.0.9'', \<lparr>packets = 3, last_seen = 90, scores = []\<rparr>)]"

text \<open>
  Example traffic: ten packets from one public address to ten different ports, the records
  they leave in the port-access tracker at time 100, and an event without a \<open>src\<close> key.
\<close>

definition scan_ports :: "int list" where
  "scan_ports = [20, 21, 22, 23, 24, 25, 26, 27, 28, 29]"

definition scan_batch :: "packet list" where
  "scan_batch = map (\<lambda>port. mk_packet ''8.8.8.8'' ''10.0.0.9'' port 60) scan_ports"

definition scan_records :: "(real \<times> int) list" where
  "scan_records = map (\<lambda>port. (100, port)) scan_ports"

definition example_no_src :: packet where
  "example_no_src =
     \<lparr>src = None, dst = Some ''10.0.0.9'', dport = Some 22, psize = Some 60,
      frame_type = None, frame_subtype = None, src_mac = None\<rparr>"

text \<open>
  A batch in which one event with a source is followed by eleven events without one, all
  to port 22 of the same destination.
\<close>

definition no_src_flood :: "packet list" where
  "no_src_flood = mk_packet ''8.8.8.8'' ''10.0.0.9'' 22 60 # replicate 11 example_no_src"

text \<open>
  Example state and traffic for the flow analysis: a first batch of 64 packets on whose
  first two packets the classifier reports an attack, the analyzer state this batch
  leaves at time 99, a batch with two flows from one of the two addresses, eleven SSH
  connection attempts from an IPv4 and from an IPv6 source, and the alerts these examples
  produce at time 100.
\<close>

definition first_batch :: "packet list" where
  "first_batch =
     mk_packet ''8.8.8.8'' ''10.0.0.9'' 80 60 # replicate 63 (mk_packet ''10.0.0.9'' ''8.8.8.8'' 443 60)"

definition first_env :: ml_env where
  "first_env =
     \<lparr>cnn_model = Preds [[1 / 16, 15 / 16], [1 / 32, 31 / 32]], svm_model = Absent, ml_clock = 99,
      float_mean = avg_score, float_lit = example_float_lit\<rparr>"

definition watched_behavior :: "(string, ip_stats) dict" where
  "watched_behavior =
     [(''8.8.8.8'', \<lparr>packets = 1, last_seen = 99, scores = [15 / 16]\<rparr>),
      (''10.0.0.9'', \<lparr>packets = 63, last_seen = 99, scores = [31 / 32]\<rparr>)]"

definition brute_force_8888 :: alert where
  "brute_force_8888 =
     \<lparr>timestamp = 100, alert_type = ''Potential Brute Force'', severity = ''high'',
      source = ''ml_network_analyzer'',
      description = ''Excessive connection attempts from 8.8.8.8 to 10.0.0.9:22''\<rparr>"

definition large_transfer_unparseable :: alert where
  "large_transfer_unparseable =
     \<lparr>timestamp = 100, alert_type = ''Large Data Transfer'', severity = ''medium'',
      source = ''ml_network_analyzer'',
      description = ''Large data transfer from 10.0.0.9 to external IP not-an-ip''\<rparr>"

definition watched :: ml_network_analyzer where
  "watched = \<lparr>packet_history = first_batch, ip_behavior = watched_behavior\<rparr>"

definition persistent_8888 :: alert where
  "persistent_8888 =
     \<lparr>timestamp = 100, alert_type = ''Persistent Anomalous Behavior'', severity = ''high'',
      source = ''ml_network_analyzer'',
      description = ''IP 8.8.8.8 shows persistent anomalous behavior (score: 0.94)''\<rparr>"

definition two_flows :: "packet list" where
  "two_flows = [mk_packet ''8.8.8.8'' ''10.0.0.9'' 80 60, mk_packet ''8.8.8.8'' ''10.0.0.9'' 8080 60]"

definition ssh_flood :: "packet list" where
  "ssh_flood = replicate 11 (mk_packet ''8.8.8.8'' ''10.0.0.9'' 22 60)"

definition ssh_flood_v6 :: "packet list" where
  "ssh_flood_v6 = replicate 11 (mk_packet ''2606:4700:4700::1111'' ''10.0.0.9'' 22 60)"

section \<open>Properties\<close>

subsection \<open>Dictionary facts\<close>

lemma map_of_dict_set_same: "map_of (dict_set k v d) k = Some v"
  by (induction d) auto

lemma map_of_dict_set_other: "k' \<noteq> k \<Longrightarrow> map_of (dict_set k v d) k' = map_of d k'"
  by (induction d) auto

lemma dict_set_keys:
  "set (map fst (dict_set k v d)) = insert k (set (map fst d))"
  by (induction d) auto

lemma dict_set_ok: "dict_ok d \<Longrightarrow> dict_ok (dict_set k v d)"
  unfolding dict_ok_def
proof (induction d)
  case Nil
  then show ?case by simp
next
  case (Cons e d)
  then show ?case using dict_set_keys [of k v d] by (auto simp del: set_map)
qed

lemma dict_append_ok: "dict_ok d \<Longrightarrow> dict_ok (dict_append k v d)"
  by (simp add: dict_append_def dict_set_ok split: option.splits)

lemma map_of_skip_prefix: "k \<notin> fst ` set pre \<Longrightarrow> map_of (pre @ ys) k = map_of ys k"
  by (induction pre) auto

lemma dict_set_in_place:
  "k \<notin> fst ` set pre \<Longrightarrow> dict_set k v (pre @ (k, x) # rest) = pre @ (k, v) # rest"
  by (induction pre) auto

lemma dict_del_absent: "k \<notin> fst ` set d \<Longrightarrow> dict_del k d = d"
  by (induction d) (auto simp: dict_del_def)

lemma dict_del_in_place:
  "k \<notin> fst ` set pre \<Longrightarrow> k \<notin> fst ` set rest \<Longrightarrow> dict_del k (pre @ (k, x) # rest) = pre @ rest"
  using dict_del_absent [of k pre] dict_del_absent [of k rest] by (simp add: dict_del_def)


subsection \<open>Packet history\<close>

lemma extend_history_drop:
  "extend_history b h = drop (length (h @ b) - history_limit) (h @ b)"
  by (simp add: extend_history_def Let_def)

lemma extend_history_length: "length (extend_history b h) \<le> history_limit"
  unfolding extend_history_def Let_def by (simp split: if_splits, arith)

lemma ml_ingest_history:
  "packet_history (snd (ml_ingest env t b s)) = extend_history b (packet_history s)"
  by (simp add: ml_ingest_def Let_def split: prod.splits)

lemma ml_analyze_history:
  assumes "length (packet_history s) \<le> history_limit"
  shows "packet_history (snd (ml_analyze lib env t b s)) = extend_history b (packet_history s)"
proof (cases "b = []")
  case True
  with assms show ?thesis by (simp add: ml_analyze_def extend_history_def)
next
  case False
  have "packet_history (snd (ml_analyze lib env t b s)) = packet_history (snd (ml_ingest env t b s))"
    using False by (simp add: ml_analyze_def split: prod.splits sum.splits)
  then show ?thesis by (simp add: ml_ingest_history)
qed

lemma drop_last_twice:
  "drop (length (drop (length xs - n) xs @ ys) - n) (drop (length xs - n) xs @ ys)
     = drop (length (xs @ ys) - n) (xs @ ys)"
  by (cases "length xs \<le> n") (auto simp: add.commute)

lemma ml_run_history:
  "length (packet_history s) \<le> history_limit \<Longrightarrow>
   packet_history (ml_run lib calls s)
     = drop (length (packet_history s @ ingested calls) - history_limit) (packet_history s @ ingested calls)"
proof (induction calls arbitrary: s)
  case Nil
  then show ?case by (simp add: ingested_def)
next
  case (Cons c calls)
  obtain env t b where c: "c = (env, t, b)" by (cases c) auto
  let ?s = "snd (ml_analyze lib env t b s)"
  have h: "packet_history ?s = extend_history b (packet_history s)"
    using Cons.prems by (rule ml_analyze_history)
  have len: "length (packet_history ?s) \<le> history_limit"
    by (simp add: h extend_history_length)
  have "packet_history (ml_run lib (c # calls) s) = packet_history (ml_run lib calls ?s)"
    by (simp add: c)
  also have "\<dots> = drop (length (packet_history ?s @ ingested calls) - history_limit)
                     (packet_history ?s @ ingested calls)"
    by (rule Cons.IH [OF len])
  also have "\<dots> = drop (length ((packet_history s @ b) @ ingested calls) - history_limit)
                     ((packet_history s @ b) @ ingested calls)"
    unfolding h extend_history_drop by (rule drop_last_twice)
  finally show ?case by (simp add: c ingested_def)
qed

text \<open>
  C7. On a fresh analyzer, after any sequence of calls of \<open>analyze\<close> the packet history
  has at most 1000 entries; when the calls brought 1500 events in all, whatever the
  batching, the clocks and the classifier's answers, it has exactly 1000 entries, which
  are the last 1000 events in arrival order (the first 500 are gone).
\<close>

theorem packet_history_bounded_fifo:
  "length (packet_history (ml_run lib calls ml_network_analyzer_init)) \<le> 1000
   \<and> (length (ingested calls) = 1500 \<longrightarrow>
        length (packet_history (ml_run lib calls ml_network_analyzer_init)) = 1000
        \<and> packet_history (ml_run lib calls ml_network_analyzer_init) = drop 500 (ingested calls))"
proof -
  have "packet_history (ml_run lib calls ml_network_analyzer_init)
          = drop (length (ingested calls) - history_limit) (ingested calls)"
    using ml_run_history [of ml_network_analyzer_init lib calls]
    by (simp add: ml_network_analyzer_init_def)
  then show ?thesis by (auto simp: history_limit_def)
qed

theorem packet_history_bounded_fifo_witness:
  "length (ingested [(no_models, 1, replicate 700 (mk_packet ''8.8.8.8'' ''10.0.0.9'' 80 60)),
                     (no_models, 2, replicate 800 (mk_packet ''10.0.0.9'' ''8.8.8.8'' 443 60))]) = 1500
   \<and> packet_history
        (ml_run example_ipaddress
           [(no_models, 1, replicate 700 (mk_packet ''8.8.8.8'' ''10.0.0.9'' 80 60)),
            (no_models, 2, replicate 800 (mk_packet ''10.0.0.9'' ''8.8.8.8'' 443 60))]
           ml_network_analyzer_init)
      = replicate 200 (mk_packet ''8.8.8.8'' ''10.0.0.9'' 80 60)
          @ replicate 800 (mk_packet ''10.0.0.9'' ''8.8.8.8'' 443 60)"
  using packet_history_bounded_fifo
    [of example_ipaddress
        "[(no_models, 1, replicate 700 (mk_packet ''8.8.8.8'' ''10.0.0.9'' 80 60)),
          (no_models, 2, replicate 800 (mk_packet ''10.0.0.9'' ''8.8.8.8'' 443 60))]"]
  by (simp add: ingested_def)

subsection \<open>Scores\<close>

lemma record_score_tracked:
  "map_of d ip = Some e \<Longrightarrow>
   map_of (record_score ip c d) ip
     = Some (e\<lparr>scores := drop (length (scores e @ [c]) - 10) (scores e @ [c])\<rparr>)"
  by (simp add: record_score_def Let_def map_of_dict_set_same)

lemma record_scores_bounded:
  "map_of d ip = Some e \<Longrightarrow> length (scores e) \<le> 10 \<Longrightarrow>
   map_of (record_scores ip cs d) ip
     = Some (e\<lparr>scores := drop (length (scores e @ cs) - 10) (scores e @ cs)\<rparr>)"
proof (induction cs arbitrary: d e)
  case Nil
  then show ?case by (simp add: record_scores_def)
next
  case (Cons c cs)
  let ?e = "e\<lparr>scores := drop (length (scores e @ [c]) - 10) (scores e @ [c])\<rparr>"
  have step: "map_of (record_score ip c d) ip = Some ?e"
    using Cons.prems(1) by (rule record_score_tracked)
  have len: "length (scores ?e) \<le> 10" by simp
  have "map_of (record_scores ip (c # cs) d) ip = map_of (record_scores ip cs (record_score ip c d)) ip"
    by (simp add: record_scores_def)
  also have "\<dots> = Some (?e\<lparr>scores := drop (length (scores ?e @ cs) - 10) (scores ?e @ cs)\<rparr>)"
    by (rule Cons.IH [OF step len])
  also have "drop (length (scores ?e @ cs) - 10) (scores ?e @ cs)
               = drop (length ((scores e @ [c]) @ cs) - 10) ((scores e @ [c]) @ cs)"
    using drop_last_twice [of "scores e @ [c]" 10 cs] by simp
  finally show ?case by simp
qed

lemma record_scores_tracked:
  assumes "map_of d ip = Some e" and "cs \<noteq> []"
  shows "map_of (record_scores ip cs d) ip
     = Some (e\<lparr>scores := drop (length (scores e @ cs) - 10) (scores e @ cs)\<rparr>)"
proof -
  obtain c cs' where cs: "cs = c # cs'" using assms(2) by (cases cs) auto
  let ?e = "e\<lparr>scores := drop (length (scores e @ [c]) - 10) (scores e @ [c])\<rparr>"
  have step: "map_of (record_score ip c d) ip = Some ?e"
    using assms(1) by (rule record_score_tracked)
  have len: "length (scores ?e) \<le> 10" by simp
  have "map_of (record_scores ip cs d) ip = map_of (record_scores ip cs' (record_score ip c d)) ip"
    by (simp add: record_scores_def cs)
  also have "\<dots> = Some (?e\<lparr>scores := drop (length (scores ?e @ cs') - 10) (scores ?e @ cs')\<rparr>)"
    by (rule record_scores_bounded [OF step len])
  also have "drop (length (scores ?e @ cs') - 10) (scores ?e @ cs')
               = drop (length ((scores e @ [c]) @ cs') - 10) ((scores e @ [c]) @ cs')"
    using drop_last_twice [of "scores e @ [c]" 10 cs'] by simp
  finally show ?thesis by (simp add: cs)
qed

text \<open>
  C8. Recording a classifier score for a tracked IP appends it and keeps the last 10
  entries of the IP's score history. After 15 scores have been recorded for one IP, its
  history is the last 10 of them and the average that the persistent-anomaly check
  computes is their arithmetic mean, whatever the history held before.
\<close>

theorem scores_keep_last_ten:
  assumes "map_of d ip = Some e" and "length cs = 15"
  shows "map_option scores (map_of (record_score ip c d) ip)
           = Some (drop (length (scores e @ [c]) - 10) (scores e @ [c]))
       \<and> map_option scores (map_of (record_scores ip cs d) ip) = Some (drop 5 cs)
       \<and> map_option (\<lambda>e'. avg_score (scores e')) (map_of (record_scores ip cs d) ip)
           = Some (sum_list (drop 5 cs) / 10)"
proof -
  have one: "map_option scores (map_of (record_score ip c d) ip)
           = Some (drop (length (scores e @ [c]) - 10) (scores e @ [c]))"
    using record_score_tracked [OF assms(1), of c] by simp
  have ne: "cs \<noteq> []" using assms(2) by auto
  have sc: "map_option scores (map_of (record_scores ip cs d) ip) = Some (drop 5 cs)"
    using record_scores_tracked [OF assms(1) ne] assms(2) by simp
  have "map_option (\<lambda>e'. avg_score (scores e')) (map_of (record_scores ip cs d) ip)
           = Some (sum_list (drop 5 cs) / 10)"
    using sc assms(2) by (auto simp: avg_score_def)
  with one sc show ?thesis by simp
qed

theorem scores_keep_last_ten_witness:
  "map_of [(''8.8.8.8'', \<lparr>packets = 64, last_seen = 1, scores = [8 / 10]\<rparr>)] ''8.8.8.8''
     = Some \<lparr>packets = 64, last_seen = 1, scores = [8 / 10]\<rparr>
   \<and> length (replicate 5 (8 / 10) @ replicate 10 (95 / 100 :: real)) = 15
   \<and> map_option (\<lambda>e'. avg_score (scores e'))
        (map_of (record_scores ''8.8.8.8'' (replicate 5 (8 / 10) @ replicate 10 (95 / 100))
                   [(''8.8.8.8'', \<lparr>packets = 64, last_seen = 1, scores = [8 / 10]\<rparr>)]) ''8.8.8.8'')
      = Some (95 / 100)"
  using scores_keep_last_ten
    [of "[(''8.8.8.8'', \<lparr>packets = 64, last_seen = 1, scores = [8 / 10]\<rparr>)]" "''8.8.8.8''"
        "\<lparr>packets = 64, last_seen = 1, scores = [8 / 10]\<rparr>"
        "replicate 5 (8 / 10) @ replicate 10 (95 / 100)"]
  by (simp add: sum_list_replicate)

subsection \<open>Cleanup\<close>

lemma cleanup_loop_split:
  "distinct (map fst (pre @ rest)) \<Longrightarrow>
   cleanup_loop keep (map fst rest) (pre @ rest) = pre @ kept_entries keep rest"
proof (induction rest arbitrary: pre)
  case Nil
  then show ?case by (simp add: kept_entries_def)
next
  case (Cons e rest)
  obtain k vs where e: "e = (k, vs)" by (cases e) auto
  have k_pre: "k \<notin> fst ` set pre" and k_rest: "k \<notin> fst ` set rest"
    using Cons.prems by (auto simp: e)
  have look: "map_of (pre @ (k, vs) # rest) k = Some vs"
    using k_pre by (simp add: map_of_skip_prefix del: map_of_append)
  have d1: "dict_set k (filter keep vs) (pre @ (k, vs) # rest) = pre @ (k, filter keep vs) # rest"
    using k_pre by (rule dict_set_in_place)
  have look1: "map_of (pre @ (k, filter keep vs) # rest) k = Some (filter keep vs)"
    using k_pre by (simp add: map_of_skip_prefix del: map_of_append)
  have step: "cleanup_loop keep (map fst (e # rest)) (pre @ e # rest)
      = cleanup_loop keep (map fst rest)
          (if filter keep vs = [] then dict_del k (pre @ (k, filter keep vs) # rest)
           else pre @ (k, filter keep vs) # rest)"
    by (simp add: e look d1 look1 get_or_def Let_def del: map_of_append)
  show ?case
  proof (cases "filter keep vs = []")
    case True
    have "cleanup_loop keep (map fst (e # rest)) (pre @ e # rest)
            = cleanup_loop keep (map fst rest) (pre @ rest)"
      unfolding step using True k_pre k_rest by (simp add: dict_del_in_place)
    also have "\<dots> = pre @ kept_entries keep rest"
      using Cons.prems by (intro Cons.IH) (auto simp: e)
    finally show ?thesis using True by (simp add: e kept_entries_def)
  next
    case False
    have "cleanup_loop keep (map fst (e # rest)) (pre @ e # rest)
            = cleanup_loop keep (map fst rest) ((pre @ [(k, filter keep vs)]) @ rest)"
      unfolding step using False by simp
    also have "\<dots> = (pre @ [(k, filter keep vs)]) @ kept_entries keep rest"
      using Cons.prems by (intro Cons.IH) (auto simp: e)
    finally show ?thesis using False by (simp add: e kept_entries_def)
  qed
qed

lemma cleanup_loop_kept:
  "dict_ok d \<Longrightarrow> cleanup_loop keep (dict_keys d) d = kept_entries keep d"
  using cleanup_loop_split [of "[]" d keep] by (simp add: dict_ok_def dict_keys_def)

lemma kept_entries_ok: "dict_ok d \<Longrightarrow> dict_ok (kept_entries keep d)"
proof -
  assume "dict_ok d"
  then have "distinct (map fst (map (\<lambda>e. (fst e, filter keep (snd e))) d))"
    by (simp add: dict_ok_def o_def)
  then show ?thesis
    unfolding dict_ok_def kept_entries_def by (rule distinct_map_filter)
qed

lemma kept_entries_idem: "kept_entries keep (kept_entries keep d) = kept_entries keep d"
  by (induction d) (auto simp: kept_entries_def)

lemma cleanup_loop_idem:
  assumes "dict_ok d"
  shows "cleanup_loop keep (dict_keys (cleanup_loop keep (dict_keys d) d)) (cleanup_loop keep (dict_keys d) d)
           = cleanup_loop keep (dict_keys d) d"
  using assms by (simp add: cleanup_loop_kept kept_entries_ok kept_entries_idem)

lemma cleanup_data_loop_split:
  "distinct (map fst (pre @ rest)) \<Longrightarrow>
   cleanup_data_loop cutoff (map fst rest) (pre @ rest) = pre @ fresh_entries cutoff rest"
proof (induction rest arbitrary: pre)
  case Nil
  then show ?case by (simp add: fresh_entries_def)
next
  case (Cons e rest)
  obtain k v where e: "e = (k, v)" by (cases e) auto
  have k_pre: "k \<notin> fst ` set pre" and k_rest: "k \<notin> fst ` set rest"
    using Cons.prems by (auto simp: e)
  have look: "map_of (pre @ (k, v) # rest) k = Some v"
    using k_pre by (simp add: map_of_skip_prefix del: map_of_append)
  show ?case
  proof (cases "last_seen v < cutoff")
    case True
    have "cleanup_data_loop cutoff (map fst (e # rest)) (pre @ e # rest)
            = cleanup_data_loop cutoff (map fst rest) (pre @ rest)"
      using True k_pre k_rest by (simp add: e look dict_del_in_place del: map_of_append)
    also have "\<dots> = pre @ fresh_entries cutoff rest"
      using Cons.prems by (intro Cons.IH) (auto simp: e)
    finally show ?thesis using True by (simp add: e fresh_entries_def)
  next
    case False
    have "cleanup_data_loop cutoff (map fst (e # rest)) (pre @ e # rest)
            = cleanup_data_loop cutoff (map fst rest) ((pre @ [(k, v)]) @ rest)"
      using False by (simp add: e look del: map_of_append)
    also have "\<dots> = (pre @ [(k, v)]) @ fresh_entries cutoff rest"
      using Cons.prems by (intro Cons.IH) (auto simp: e)
    finally show ?thesis using False by (simp add: e fresh_entries_def)
  qed
qed

lemma cleanup_old_data_fresh:
  "dict_ok d \<Longrightarrow> cleanup_old_data cutoff d = fresh_entries cutoff d"
  using cleanup_data_loop_split [of "[]" d cutoff]
  by (simp add: dict_ok_def dict_keys_def cleanup_old_data_def)

lemma fresh_entries_ok: "dict_ok d \<Longrightarrow> dict_ok (fresh_entries cutoff d)"
  unfolding dict_ok_def fresh_entries_def by (simp add: distinct_map_filter)

text \<open>
  C9. Cleanup is idempotent: with the same cutoff, a second cleanup of the port-access
  and deauth trackers, and of the per-IP behaviour, changes nothing that the first one
  left (the dictionaries have distinct keys, as every Python dict does).
\<close>

theorem cleanup_idempotent:
  assumes "dict_ok (ip_port_access s)" and "dict_ok (deauth_frames s)" and "dict_ok d"
  shows "cleanup_old_entries cutoff (cleanup_old_entries cutoff s) = cleanup_old_entries cutoff s
       \<and> cleanup_old_data cutoff (cleanup_old_data cutoff d) = cleanup_old_data cutoff d"
proof -
  have "cleanup_old_entries cutoff (cleanup_old_entries cutoff s) = cleanup_old_entries cutoff s"
    using assms(1,2) by (simp add: cleanup_old_entries_def cleanup_loop_idem)
  moreover have "cleanup_old_data cutoff (cleanup_old_data cutoff d) = cleanup_old_data cutoff d"
    using assms(3) by (simp add: cleanup_old_data_fresh fresh_entries_ok) (simp add: fresh_entries_def)
  ultimately show ?thesis by simp
qed

theorem cleanup_idempotent_witness:
  "dict_ok (ip_port_access example_tracker) \<and> dict_ok (deauth_frames example_tracker)
   \<and> dict_ok example_behavior
   \<and> cleanup_old_entries 40 (cleanup_old_entries 40 example_tracker)
        = cleanup_old_entries 40 example_tracker
   \<and> cleanup_old_data 40 (cleanup_old_data 40 example_behavior)
        = cleanup_old_data 40 example_behavior"
  using cleanup_idempotent [of example_tracker example_behavior 40]
  by (simp add: dict_ok_def example_tracker_def example_behavior_def)

subsection \<open>NetworkAnalyzer: the alerts of one call\<close>

lemma foldl_analyze_packet:
  "foldl (analyze_packet lib t) (s, al) batch
     = (foldl (track_packet t) s batch, al @ concat (map (attack_port_alerts lib t) batch))"
  by (induction batch arbitrary: s al) (simp_all add: analyze_packet_def)

lemma analyze_alerts:
  "network_data \<noteq> [] \<Longrightarrow>
   fst (analyze lib t network_data s)
     = concat (map (attack_port_alerts lib t) network_data)
       @ detect_port_scans t (ip_port_access (foldl (track_packet t) s network_data))
       @ detect_deauth_attacks t (deauth_frames (foldl (track_packet t) s network_data))"
  by (simp add: analyze_def foldl_analyze_packet)

lemma track_packet_ok:
  "dict_ok (ip_port_access s) \<Longrightarrow> dict_ok (ip_port_access (track_packet t s p))"
  by (simp add: track_packet_def track_port_access_def Let_def dict_append_ok)

lemma tracked_ok:
  "dict_ok (ip_port_access s) \<Longrightarrow> dict_ok (ip_port_access (foldl (track_packet t) s batch))"
  by (induction batch arbitrary: s) (simp_all add: track_packet_ok)

lemma attack_port_alerts_medium:
  "a \<in> set (attack_port_alerts lib t p) \<Longrightarrow>
   severity a = ''medium'' \<and> alert_type a \<noteq> ''Potential Port Scan''"
  by (auto simp: attack_port_alerts_def Let_def suspicious_ports_def split: option.splits if_splits)

lemma port_scan_alerts_high:
  "a \<in> set (port_scan_alerts t ip acc) \<Longrightarrow>
   severity a = ''high'' \<and> alert_type a = ''Potential Port Scan''"
  by (auto simp: port_scan_alerts_def Let_def split: if_splits)

lemma deauth_alerts_high:
  "a \<in> set (deauth_alerts t mac ts) \<Longrightarrow>
   severity a = ''high'' \<and> alert_type a \<noteq> ''Potential Port Scan''"
  by (auto simp: deauth_alerts_def Let_def split: if_splits)

lemma filter_none: "(\<And>a. a \<in> set xs \<Longrightarrow> \<not> P a) \<Longrightarrow> filter P xs = []"
  by (induction xs) auto

lemma filter_all: "(\<And>a. a \<in> set xs \<Longrightarrow> P a) \<Longrightarrow> filter P xs = xs"
  by (induction xs) auto

lemma unique_ports_card:
  "length (remdups (map snd (filter (\<lambda>a. c < fst a) acc))) = card (snd ` {a \<in> set acc. c < fst a})"
  by (simp add: length_remdups_card_conv)

lemma detect_port_scans_map:
  "detect_port_scans t d
     = map (\<lambda>(ip, accesses).
              \<lparr>timestamp = t, alert_type = ''Potential Port Scan'', severity = ''high'',
               source = ''network_traffic'',
               description = ''IP '' @ ip @ '' accessed ''
                 @ show_nat (card (snd ` {a \<in> set accesses. t - 5 < fst a}))
                 @ '' different ports in 5 seconds''\<rparr>)
         (filter (\<lambda>(ip, accesses). 10 \<le> card (snd ` {a \<in> set accesses. t - 5 < fst a})) d)"
proof (induction d)
  case Nil
  then show ?case by (simp add: detect_port_scans_def)
next
  case (Cons e d)
  obtain ip acc where e: "e = (ip, acc)" by (cases e) auto
  have five: "show_nat 5 = ''5''"
    by (simp add: show_nat.simps digit_char_def)
  have "detect_port_scans t (e # d) = port_scan_alerts t ip acc @ detect_port_scans t d"
    by (simp add: detect_port_scans_def e)
  then show ?case
    unfolding Cons.IH
    by (simp add: e port_scan_alerts_def Let_def unique_ports_card [symmetric] five
        port_scan_threshold_def port_scan_window_def)
qed

lemma detect_deauth_no_scan:
  "a \<in> set (detect_deauth_attacks t d) \<Longrightarrow> severity a = ''high'' \<and> alert_type a \<noteq> ''Potential Port Scan''"
  using deauth_alerts_high by (fastforce simp: detect_deauth_attacks_def)

lemma detect_port_scans_high:
  "a \<in> set (detect_port_scans t d) \<Longrightarrow> severity a = ''high'' \<and> alert_type a = ''Potential Port Scan''"
  using port_scan_alerts_high by (fastforce simp: detect_port_scans_def)

lemma attack_port_alerts_concat:
  "a \<in> set (concat (map (attack_port_alerts lib t) batch)) \<Longrightarrow>
   severity a = ''medium'' \<and> alert_type a \<noteq> ''Potential Port Scan''"
  using attack_port_alerts_medium by fastforce

text \<open>
  C1, as the code has it. In a call of \<open>analyze\<close> with a non-empty batch, the
  ``Potential Port Scan'' alerts returned are exactly one per tracked source IP whose
  port-access records with a timestamp strictly greater than now minus 5 seconds hold at
  least 10 distinct destination ports, in the order of the tracker; each is of high
  severity and its description cites the number of distinct ports and the 5 seconds. An IP
  with 9 or fewer distinct ports in the window gets none, and every IP is tracked once.
  (A call with an empty batch returns before any detector runs.)
\<close>

theorem port_scan_alert_per_ip:
  assumes "network_data \<noteq> []" and "dict_ok (ip_port_access s)"
  shows "dict_ok (ip_port_access (foldl (track_packet t) s network_data))
   \<and> filter (\<lambda>a. alert_type a = ''Potential Port Scan'') (fst (analyze lib t network_data s))
     = map (\<lambda>(ip, accesses).
              \<lparr>timestamp = t, alert_type = ''Potential Port Scan'', severity = ''high'',
               source = ''network_traffic'',
               description = ''IP '' @ ip @ '' accessed ''
                 @ show_nat (card (snd ` {a \<in> set accesses. t - 5 < fst a}))
                 @ '' different ports in 5 seconds''\<rparr>)
         (filter (\<lambda>(ip, accesses). 10 \<le> card (snd ` {a \<in> set accesses. t - 5 < fst a}))
            (ip_port_access (foldl (track_packet t) s network_data)))"
proof -
  let ?d = "ip_port_access (foldl (track_packet t) s network_data)"
  let ?scan = "\<lambda>a. alert_type a = ''Potential Port Scan''"
  have a: "filter ?scan (concat (map (attack_port_alerts lib t) network_data)) = []"
    by (rule filter_none) (use attack_port_alerts_concat in blast)
  have b: "filter ?scan (detect_port_scans t ?d) = detect_port_scans t ?d"
    by (rule filter_all) (use detect_port_scans_high in blast)
  have c: "filter ?scan (detect_deauth_attacks t (deauth_frames (foldl (track_packet t) s network_data))) = []"
    by (rule filter_none) (use detect_deauth_no_scan in blast)
  have "filter ?scan (fst (analyze lib t network_data s)) = detect_port_scans t ?d"
    unfolding analyze_alerts [OF assms(1)] filter_append a b c by simp
  then show ?thesis
    using tracked_ok [OF assms(2)] by (simp add: detect_port_scans_map)
qed

text \<open>
  C5, as the code has it. In a call of \<open>analyze\<close> the alerts of medium severity
  returned are exactly one ``Access Attempt'' alert per event, in batch order, whose
  destination port is 22, 3389 or 445 and whose source address is not empty and not
  private (an address the library cannot parse counts as not private). No window is
  involved. An event whose source is empty or missing gets no such alert.
\<close>

theorem access_attempt_alerts:
  "filter (\<lambda>a. severity a = ''medium'') (fst (analyze lib t network_data s))
     = concat (map (\<lambda>p.
         if get_or (dport p) 0 \<in> {22, 3389, 445} \<and> get_or (src p) [] \<noteq> []
            \<and> lib (get_or (src p) []) \<noteq> Some True
         then [\<lparr>timestamp = t,
                alert_type = (if get_or (dport p) 0 = 22 then ''SSH''
                              else if get_or (dport p) 0 = 3389 then ''RDP'' else ''SMB'')
                  @ '' Access Attempt'',
                severity = ''medium'',
                source = ''network_traffic'',
                description = ''External IP '' @ get_or (src p) [] @ '' attempting to connect to ''
                  @ (if get_or (dport p) 0 = 22 then ''SSH''
                     else if get_or (dport p) 0 = 3389 then ''RDP'' else ''SMB'')
                  @ '' port '' @ show_int (get_or (dport p) 0)\<rparr>]
         else []) network_data)"
proof (cases "network_data = []")
  case True
  then show ?thesis by (simp add: analyze_def)
next
  case False
  let ?med = "\<lambda>a. severity a = ''medium''"
  have a: "filter ?med (concat (map (attack_port_alerts lib t) network_data))
             = concat (map (attack_port_alerts lib t) network_data)"
    by (rule filter_all) (use attack_port_alerts_concat in blast)
  have b: "filter ?med (detect_port_scans t d) = []" for d
    by (rule filter_none) (use detect_port_scans_high in force)
  have c: "filter ?med (detect_deauth_attacks t d) = []" for d
    by (rule filter_none) (use detect_deauth_no_scan in force)
  have d: "attack_port_alerts lib t p
      = (if get_or (dport p) 0 \<in> {22, 3389, 445} \<and> get_or (src p) [] \<noteq> []
            \<and> lib (get_or (src p) []) \<noteq> Some True
         then [\<lparr>timestamp = t,
                alert_type = (if get_or (dport p) 0 = 22 then ''SSH''
                              else if get_or (dport p) 0 = 3389 then ''RDP'' else ''SMB'')
                  @ '' Access Attempt'',
                severity = ''medium'',
                source = ''network_traffic'',
                description = ''External IP '' @ get_or (src p) [] @ '' attempting to connect to ''
                  @ (if get_or (dport p) 0 = 22 then ''SSH''
                     else if get_or (dport p) 0 = 3389 then ''RDP'' else ''SMB'')
                  @ '' port '' @ show_int (get_or (dport p) 0)\<rparr>]
         else [])" for p
    by (cases "lib (get_or (src p) [])")
       (auto simp: attack_port_alerts_def Let_def suspicious_ports_def is_internal_ip_def)
  show ?thesis
    unfolding analyze_alerts [OF False] filter_append a b c d by simp
qed

lemma empty_src_step:
  assumes "get_or (src p) [] = []"
  shows "analyze_packet lib t (s, alerts) p
           = (s\<lparr>deauth_frames := track_deauth t p (deauth_frames s)\<rparr>, alerts)
       \<and> update_ip_behavior t d p = d
       \<and> (map_of d [] = None \<longrightarrow> record_score (get_or (src p) []) c d = d)
       \<and> flow_key p = '':'' @ get_or (dst p) [] @ '':'' @ show_int (get_or (dport p) 0)
       \<and> map_of (add_flow flows p) (flow_key p) = Some (get_or (map_of flows (flow_key p)) [] @ [p])"
  using assms
  by (simp add: analyze_packet_def track_packet_def track_port_access_def attack_port_alerts_def
      update_ip_behavior_def flow_key_def add_flow_def dict_append_def map_of_dict_set_same
      record_score_def get_or_def Let_def split: option.splits)

lemma show_22: "show_int 22 = ''22''"
  by (simp add: show_int_def show_nat.simps digit_char_def)

theorem access_attempt_alerts_witness:
  "[mk_packet ''8.8.8.8'' ''10.0.0.9'' 22 60, example_no_src, mk_packet ''10.0.0.9'' ''8.8.8.8'' 445 60,
    mk_packet ''not-an-ip'' ''10.0.0.9'' 3389 60] \<noteq> []
   \<and> filter (\<lambda>a. severity a = ''medium'')
        (fst (analyze example_ipaddress 100
           [mk_packet ''8.8.8.8'' ''10.0.0.9'' 22 60, example_no_src,
            mk_packet ''10.0.0.9'' ''8.8.8.8'' 445 60, mk_packet ''not-an-ip'' ''10.0.0.9'' 3389 60]
           network_analyzer_init))
     = [\<lparr>timestamp = 100, alert_type = ''SSH Access Attempt'', severity = ''medium'',
         source = ''network_traffic'',
         description = ''External IP 8.8.8.8 attempting to connect to SSH port 22''\<rparr>,
        \<lparr>timestamp = 100, alert_type = ''RDP Access Attempt'', severity = ''medium'',
         source = ''network_traffic'',
         description = ''External IP not-an-ip attempting to connect to RDP port 3389''\<rparr>]"
  using access_attempt_alerts
    [of example_ipaddress 100
        "[mk_packet ''8.8.8.8'' ''10.0.0.9'' 22 60, example_no_src,
          mk_packet ''10.0.0.9'' ''8.8.8.8'' 445 60, mk_packet ''not-an-ip'' ''10.0.0.9'' 3389 60]"
        network_analyzer_init]
  by (simp add: mk_packet_def example_no_src_def get_or_def example_ipaddress_def
      show_int_def show_nat.simps digit_char_def)

text \<open>
  C5 as stated fails on an event without source: port 22, an address the library cannot
  parse (the empty default), and no alert.
\<close>

theorem access_attempt_empty_src_counterexample:
  "get_or (dport example_no_src) 0 = 22
   \<and> example_ipaddress (get_or (src example_no_src) []) = None
   \<and> \<not> is_internal_ip example_ipaddress (get_or (src example_no_src) [])
   \<and> fst (analyze example_ipaddress 100 [example_no_src] network_analyzer_init) = []"
  by (simp add: example_no_src_def get_or_def example_ipaddress_def is_internal_ip_def
      analyze_def analyze_packet_def attack_port_alerts_def suspicious_ports_def
      track_packet_def track_port_access_def track_deauth_def network_analyzer_init_def
      detect_port_scans_def detect_deauth_attacks_def)

lemma scan_batch_tracked:
  "ip_port_access (foldl (track_packet 100) network_analyzer_init scan_batch)
     = [(''8.8.8.8'', scan_records)]"
  by (simp add: scan_batch_def scan_records_def scan_ports_def mk_packet_def get_or_def
      track_packet_def track_port_access_def track_deauth_def network_analyzer_init_def
      dict_append_def Let_def)

lemma scan_records_recent:
  "95 < t \<Longrightarrow> t < 105 \<Longrightarrow> card (snd ` {a \<in> set scan_records. t - 5 < fst a}) = 10"
  unfolding unique_ports_card [symmetric]
  by (simp add: scan_records_def scan_ports_def)

text \<open>
  C1 as stated fails on an empty batch: one second after a scan of ten ports was recorded,
  the tracker still holds ten distinct ports inside the window, and \<open>analyze\<close> on an
  empty batch returns no alert.
\<close>

theorem port_scan_empty_batch_counterexample:
  "ip_port_access (snd (analyze example_ipaddress 100 scan_batch network_analyzer_init))
     = [(''8.8.8.8'', scan_records)]
   \<and> card (snd ` {a \<in> set scan_records. 101 - 5 < fst a}) = 10
   \<and> fst (analyze example_ipaddress 101 []
            (snd (analyze example_ipaddress 100 scan_batch network_analyzer_init))) = []"
proof -
  have ne: "scan_batch \<noteq> []" by (simp add: scan_batch_def scan_ports_def)
  have "ip_port_access (snd (analyze example_ipaddress 100 scan_batch network_analyzer_init))
          = cleanup_loop (\<lambda>a. fst a > 100 - 60) (dict_keys [(''8.8.8.8'', scan_records)])
              [(''8.8.8.8'', scan_records)]"
    using ne by (simp add: analyze_def foldl_analyze_packet cleanup_old_entries_def scan_batch_tracked)
  also have "\<dots> = [(''8.8.8.8'', scan_records)]"
    by (simp add: dict_keys_def get_or_def Let_def scan_records_def scan_ports_def)
  finally show ?thesis
    using scan_records_recent [of 101] by (simp add: analyze_def)
qed

theorem port_scan_alert_per_ip_witness:
  "scan_batch \<noteq> [] \<and> dict_ok (ip_port_access network_analyzer_init)
   \<and> filter (\<lambda>a. alert_type a = ''Potential Port Scan'')
        (fst (analyze example_ipaddress 100 scan_batch network_analyzer_init))
      = [\<lparr>timestamp = 100, alert_type = ''Potential Port Scan'', severity = ''high'',
          source = ''network_traffic'',
          description = ''IP 8.8.8.8 accessed 10 different ports in 5 seconds''\<rparr>]"
proof -
  have ne: "scan_batch \<noteq> []" by (simp add: scan_batch_def scan_ports_def)
  have ok: "dict_ok (ip_port_access network_analyzer_init)"
    by (simp add: dict_ok_def network_analyzer_init_def)
  have sh: "show_nat 10 = ''10''" by (simp add: show_nat.simps digit_char_def)
  from port_scan_alert_per_ip [OF ne ok, of 100 example_ipaddress]
  show ?thesis
    unfolding scan_batch_tracked using ne ok scan_records_recent [of 100] by (simp add: sh)
qed

subsection \<open>Flow keys\<close>

lemma split_on_no_sep: "c \<notin> set s \<Longrightarrow> split_on c s = [s]"
  by (induction s) auto

lemma split_on_sep: "c \<notin> set s \<Longrightarrow> split_on c (s @ c # t) = s # split_on c t"
  by (induction s) auto

lemma digit_cases:
  "d < 10 \<Longrightarrow> d = 0 \<or> d = 1 \<or> d = 2 \<or> d = 3 \<or> d = 4 \<or> d = 5 \<or> d = 6 \<or> d = 7 \<or> d = 8 \<or> d = (9::nat)"
  by arith

lemma digit_val_digit_char: "d < 10 \<Longrightarrow> digit_val (digit_char d) = Some d"
  using digit_cases [of d] by (auto simp: digit_val_def digit_char_def)

lemma digit_char_plain:
  "d < 10 \<Longrightarrow> digit_char d \<noteq> CHR '':'' \<and> digit_char d \<noteq> CHR ''-'' \<and> digit_char d \<noteq> CHR ''+''"
  using digit_cases [of d] by (auto simp: digit_char_def)

lemma show_nat_plain:
  "c \<in> set (show_nat n) \<Longrightarrow> c \<noteq> CHR '':'' \<and> c \<noteq> CHR ''-'' \<and> c \<noteq> CHR ''+''"
proof (induction n rule: show_nat.induct)
  case (1 n)
  show ?case
  proof (cases "n < 10")
    case True
    with "1.prems" show ?thesis
      using digit_char_plain [of n] by (simp add: show_nat.simps [of n])
  next
    case False
    with "1.prems" "1.IH" show ?thesis
      using digit_char_plain [of "n mod 10"] by (auto simp: show_nat.simps [of n])
  qed
qed

lemma show_nat_nonempty: "show_nat n \<noteq> []"
  by (simp add: show_nat.simps [of n])

lemma read_digits_snoc:
  "read_digits acc (xs @ [c])
     = (case read_digits acc xs of
          None \<Rightarrow> None
        | Some m \<Rightarrow> (case digit_val c of None \<Rightarrow> None | Some d \<Rightarrow> Some (10 * m + d)))"
  by (induction xs arbitrary: acc) (auto split: option.splits)

lemma read_digits_show_nat: "read_digits 0 (show_nat n) = Some n"
proof (induction n rule: show_nat.induct)
  case (1 n)
  show ?case
  proof (cases "n < 10")
    case True
    then show ?thesis by (simp add: show_nat.simps [of n] digit_val_digit_char)
  next
    case False
    then have "read_digits 0 (show_nat (n div 10)) = Some (n div 10)" by (rule "1.IH")
    with False show ?thesis
      by (simp add: show_nat.simps [of n] read_digits_snoc digit_val_digit_char)
  qed
qed

lemma read_nat_show_nat: "read_nat (show_nat n) = Some n"
  by (simp add: read_nat_def show_nat_nonempty read_digits_show_nat)

lemma py_int_show_int: "py_int (show_int i) = Some i"
proof (cases "i < 0")
  case True
  then show ?thesis by (simp add: show_int_def py_int_def read_nat_show_nat)
next
  case False
  obtain c cs where s: "show_nat (nat i) = c # cs"
    using show_nat_nonempty [of "nat i"] by (cases "show_nat (nat i)") auto
  have "c \<in> set (show_nat (nat i))" by (simp add: s)
  then have "c \<noteq> CHR ''-'' \<and> c \<noteq> CHR ''+''" using show_nat_plain by blast
  moreover have "read_nat (c # cs) = Some (nat i)" using read_nat_show_nat [of "nat i"] by (simp add: s)
  ultimately show ?thesis using False by (simp add: show_int_def py_int_def s)
qed

lemma show_int_no_sep: "CHR '':'' \<notin> set (show_int i)"
proof
  assume "CHR '':'' \<in> set (show_int i)"
  then have "CHR '':'' \<in> set (show_nat (nat (- i))) \<or> CHR '':'' \<in> set (show_nat (nat i))"
    by (simp add: show_int_def split: if_splits)
  then show False using show_nat_plain by blast
qed

lemma unpack_flow_key_plain:
  assumes "CHR '':'' \<notin> set s" and "CHR '':'' \<notin> set d"
  shows "unpack_flow_key (s @ '':'' @ d @ '':'' @ show_int n) = Inr (s, d, n)"
proof -
  have "split_on CHR '':'' (s @ CHR '':'' # d @ CHR '':'' # show_int n) = [s, d, show_int n]"
    using assms show_int_no_sep [of n] by (simp add: split_on_sep split_on_no_sep)
  then show ?thesis by (simp add: unpack_flow_key_def py_int_show_int)
qed


lemma flow_key_triple: "flow_key p = triple_key (flow_triple p)"
  by (simp add: flow_key_def triple_key_def flow_triple_def)


lemma unpack_triple_key: "plain_triple tr \<Longrightarrow> unpack_flow_key (triple_key tr) = Inr tr"
  using unpack_flow_key_plain [of "fst tr" "fst (snd tr)" "snd (snd tr)"]
  by (cases tr) (simp add: plain_triple_def triple_key_def)

lemma triple_key_inj: "inj_on triple_key {tr. plain_triple tr}"
proof (rule inj_onI)
  fix a b
  assume a: "a \<in> {tr. plain_triple tr}" and b: "b \<in> {tr. plain_triple tr}"
    and eq: "triple_key a = triple_key b"
  have pa: "plain_triple a" and pb: "plain_triple b" using a b by blast+
  have "Inr a = unpack_flow_key (triple_key a)"
    by (rule unpack_triple_key [OF pa, symmetric])
  also have "\<dots> = unpack_flow_key (triple_key b)" by (simp only: eq)
  also have "\<dots> = Inr b" by (rule unpack_triple_key [OF pb])
  finally show "a = b" by (simp only: sum.inject)
qed

subsection \<open>Grouping\<close>

lemma first_seen_snoc:
  "first_seen (xs @ [x]) = (if x \<in> set xs then first_seen xs else first_seen xs @ [x])"
  by (simp add: first_seen_def)

lemma set_first_seen: "set (first_seen xs) = set xs"
  by (simp add: first_seen_def)

lemma distinct_first_seen: "distinct (first_seen xs)"
  by (simp add: first_seen_def)

lemma first_seen_map_inj:
  "inj_on g (set xs) \<Longrightarrow> first_seen (map g xs) = map g (first_seen xs)"
proof (induction xs rule: rev_induct)
  case Nil
  then show ?case by (simp add: first_seen_def)
next
  case (snoc x xs)
  have inj: "inj_on g (set xs)" using snoc.prems by (simp add: inj_on_def)
  have "g x \<in> g ` set xs \<longleftrightarrow> x \<in> set xs"
    using snoc.prems by (auto simp: inj_on_def)
  then show ?case using snoc.IH [OF inj] by (simp add: first_seen_snoc)
qed

lemma dict_set_new: "k \<notin> fst ` set d \<Longrightarrow> dict_set k v d = d @ [(k, v)]"
  by (induction d) auto

lemma dict_set_keyed:
  "distinct ks \<Longrightarrow> k0 \<in> set ks \<Longrightarrow>
   dict_set k0 v (map (\<lambda>k. (k, f k)) ks) = map (\<lambda>k. (k, if k = k0 then v else f k)) ks"
proof (induction ks)
  case Nil
  then show ?case by simp
next
  case (Cons k ks)
  show ?case
  proof (cases "k = k0")
    case True
    then have "k0 \<notin> set ks" using Cons.prems by simp
    then have "map (\<lambda>k. (k, if k = k0 then v else f k)) ks = map (\<lambda>k. (k, f k)) ks"
      by (intro map_cong) auto
    with True show ?thesis by simp
  next
    case False
    then show ?thesis using Cons by simp
  qed
qed

lemma map_of_keyed:
  "map_of (map (\<lambda>k. (k, f k)) ks) k = (if k \<in> set ks then Some (f k) else None)"
  by (induction ks) auto


lemma foldl_dict_append_grouped:
  "foldl (\<lambda>d x. dict_append (key x) x d) [] xs = grouped key xs"
proof (induction xs rule: rev_induct)
  case Nil
  then show ?case by (simp add: grouped_def first_seen_def)
next
  case (snoc x xs)
  let ?ks = "first_seen (map key xs)"
  let ?F = "\<lambda>k. filter (\<lambda>y. key y = k) xs"
  have step: "foldl (\<lambda>d x. dict_append (key x) x d) [] (xs @ [x])
                = dict_append (key x) x (map (\<lambda>k. (k, ?F k)) ?ks)"
    using snoc.IH by (simp add: grouped_def)
  show ?case
  proof (cases "key x \<in> set (map key xs)")
    case True
    then have mem: "key x \<in> set ?ks" by (simp add: set_first_seen)
    have "dict_append (key x) x (map (\<lambda>k. (k, ?F k)) ?ks)
            = map (\<lambda>k. (k, if k = key x then ?F (key x) @ [x] else ?F k)) ?ks"
      using mem by (simp add: dict_append_def map_of_keyed dict_set_keyed distinct_first_seen)
    also have "\<dots> = map (\<lambda>k. (k, filter (\<lambda>y. key y = k) (xs @ [x]))) ?ks"
      by (intro map_cong) auto
    finally show ?thesis using True unfolding step by (simp add: grouped_def first_seen_snoc)
  next
    case False
    then have nmem: "key x \<notin> set ?ks" by (simp add: set_first_seen)
    then have nkey: "key x \<notin> fst ` set (map (\<lambda>k. (k, ?F k)) ?ks)" by (auto simp: image_iff)
    have empty: "?F (key x) = []" using False by (force simp: filter_empty_conv image_iff)
    have a: "dict_append (key x) x (map (\<lambda>k. (k, ?F k)) ?ks)
            = map (\<lambda>k. (k, ?F k)) ?ks @ [(key x, [x])]"
      using nmem dict_set_new [OF nkey] by (simp add: dict_append_def map_of_keyed)
    have b: "map (\<lambda>k. (k, filter (\<lambda>y. key y = k) (xs @ [x]))) ?ks = map (\<lambda>k. (k, ?F k)) ?ks"
      using nmem by (intro map_cong) auto
    have "grouped key (xs @ [x])
            = map (\<lambda>k. (k, filter (\<lambda>y. key y = k) (xs @ [x]))) ?ks @ [(key x, [x])]"
      using False empty by (simp add: grouped_def first_seen_snoc)
    then show ?thesis unfolding step a b by simp
  qed
qed

lemma group_flows_grouped: "group_flows network_data = grouped flow_key network_data"
proof -
  have eq: "add_flow = (\<lambda>d x. dict_append (flow_key x) x d)"
    by (intro ext) (simp add: add_flow_def)
  show ?thesis
    unfolding group_flows_def eq by (rule foldl_dict_append_grouped)
qed

lemma plain_addresses_triple:
  "plain_addresses network_data \<Longrightarrow> p \<in> set network_data \<Longrightarrow> plain_triple (flow_triple p)"
  by (simp add: plain_addresses_def list_all_iff plain_triple_def flow_triple_def)


lemma group_flows_flows_of:
  assumes "plain_addresses network_data"
  shows "group_flows network_data = map (\<lambda>(tr, ps). (triple_key tr, ps)) (flows_of network_data)"
proof -
  let ?ts = "first_seen (map flow_triple network_data)"
  have plain: "plain_triple (flow_triple p)" if "p \<in> set network_data" for p
    using assms that by (rule plain_addresses_triple)
  have sub: "set (map flow_triple network_data) \<subseteq> {tr. plain_triple tr}"
    using plain by auto
  have inj: "inj_on triple_key (set (map flow_triple network_data))"
    using triple_key_inj sub by (rule inj_on_subset)
  have "map flow_key network_data = map triple_key (map flow_triple network_data)"
    by (simp add: flow_key_triple)
  then have keys: "first_seen (map flow_key network_data) = map triple_key ?ts"
    using first_seen_map_inj [OF inj] by (simp only:)
  have same: "filter (\<lambda>p. flow_key p = triple_key tr) network_data
                = filter (\<lambda>p. flow_triple p = tr) network_data"
    if tr: "tr \<in> set ?ts" for tr
  proof (rule filter_cong [OF refl])
    fix p assume "p \<in> set network_data"
    then have a: "flow_triple p \<in> set (map flow_triple network_data)" by simp
    have b: "tr \<in> set (map flow_triple network_data)" using tr by (simp only: set_first_seen)
    show "(flow_key p = triple_key tr) = (flow_triple p = tr)"
      unfolding flow_key_triple by (rule inj_on_eq_iff [OF inj a b])
  qed
  have "group_flows network_data
          = map (\<lambda>k. (k, filter (\<lambda>p. flow_key p = k) network_data)) (map triple_key ?ts)"
    unfolding group_flows_grouped grouped_def keys ..
  also have "\<dots> = map (\<lambda>tr. (triple_key tr, filter (\<lambda>p. flow_key p = triple_key tr) network_data)) ?ts"
    by (simp only: map_map o_def)
  also have "\<dots> = map (\<lambda>tr. (triple_key tr, filter (\<lambda>p. flow_triple p = tr) network_data)) ?ts"
    by (rule map_cong [OF refl]) (simp only: same)
  also have "\<dots> = map (\<lambda>(tr, ps). (triple_key tr, ps)) (flows_of network_data)"
    unfolding flows_of_def by (simp only: map_map o_def prod.case)
  finally show ?thesis .
qed


subsection \<open>The flow loop\<close>

lemma flows_loop_plain:
  "\<forall>f \<in> set fl. plain_triple (fst f) \<Longrightarrow>
   flows_loop lib env t beh (map (\<lambda>(tr, ps). (triple_key tr, ps)) fl) al
     = Inr (al @ concat (map (\<lambda>(tr, ps).
          flow_alerts lib env t beh (fst tr) (fst (snd tr)) (snd (snd tr)) ps) fl))"
proof (induction fl arbitrary: al)
  case Nil
  then show ?case by simp
next
  case (Cons f fl)
  obtain tr ps where f: "f = (tr, ps)" by (cases f) auto
  have "unpack_flow_key (triple_key tr) = Inr tr"
    using Cons.prems by (simp add: f unpack_triple_key)
  moreover have "\<forall>f \<in> set fl. plain_triple (fst f)" using Cons.prems by simp
  ultimately show ?case
    using Cons.IH by (cases tr) (simp add: f)
qed

lemma flows_of_plain:
  assumes "plain_addresses network_data"
  shows "\<forall>f \<in> set (flows_of network_data). plain_triple (fst f)"
proof
  fix f assume "f \<in> set (flows_of network_data)"
  then have "fst f \<in> set (map flow_triple network_data)"
    by (auto simp: flows_of_def set_first_seen)
  then show "plain_triple (fst f)"
    using plain_addresses_triple [OF assms] by auto
qed

lemma analyze_flows_plain:
  assumes "plain_addresses network_data"
  shows "analyze_flows lib env beh network_data t
     = Inr (concat (map (\<lambda>(tr, ps).
          flow_alerts lib env t beh (fst tr) (fst (snd tr)) (snd (snd tr)) ps) (flows_of network_data)))"
  unfolding analyze_flows_def group_flows_flows_of [OF assms]
  using flows_loop_plain [OF flows_of_plain [OF assms], of lib env t beh "[]"] by simp

lemma ml_analyze_plain:
  assumes "network_data \<noteq> []" and "plain_addresses network_data"
  shows "fst (ml_analyze lib env t network_data s)
     = Inr (fst (ml_ingest env t network_data s)
            @ concat (map (\<lambda>(tr, ps).
                flow_alerts lib env t (ip_behavior (snd (ml_ingest env t network_data s)))
                  (fst tr) (fst (snd tr)) (snd (snd tr)) ps) (flows_of network_data)))"
  using assms(1) by (simp add: ml_analyze_def analyze_flows_plain [OF assms(2)] split: prod.splits)

lemma split_on_length: "length (split_on c s) = Suc (length (filter (\<lambda>x. x = c) s))"
proof (induction s)
  case Nil
  then show ?case by simp
next
  case (Cons x s)
  then have "split_on c s \<noteq> []" by auto
  then have "length (tl (split_on c s)) = length (filter (\<lambda>x. x = c) s)"
    using Cons by simp
  then show ?case using Cons by simp
qed

lemma unpack_needs_three:
  "length (split_on CHR '':'' key) \<noteq> 3 \<Longrightarrow> unpack_flow_key key = Inl ValueError"
  by (auto simp: unpack_flow_key_def split: list.splits)

lemma unpack_flow_key_separator:
  assumes "CHR '':'' \<in> set (get_or (src p) []) \<or> CHR '':'' \<in> set (get_or (dst p) [])"
  shows "unpack_flow_key (flow_key p) = Inl ValueError"
proof (rule unpack_needs_three)
  define a where "a = length (filter (\<lambda>x. x = CHR '':'') (get_or (src p) []))"
  define b where "b = length (filter (\<lambda>x. x = CHR '':'') (get_or (dst p) []))"
  define c where "c = length (filter (\<lambda>x. x = CHR '':'') (show_int (get_or (dport p) 0)))"
  have "0 < a \<or> 0 < b"
    using assms unfolding a_def b_def by (auto simp: filter_empty_conv)
  moreover have "length (split_on CHR '':'' (flow_key p)) = Suc (a + Suc (b + Suc c))"
    by (simp add: split_on_length flow_key_def a_def b_def c_def)
  ultimately show "length (split_on CHR '':'' (flow_key p)) \<noteq> 3" by arith
qed

lemma flows_loop_raises:
  "\<exists>f \<in> set flows. unpack_flow_key (fst f) = Inl ValueError \<Longrightarrow>
   flows_loop lib env t beh flows al = Inl ValueError"
proof (induction flows arbitrary: al)
  case Nil
  then show ?case by simp
next
  case (Cons f flows)
  obtain key ps where f: "f = (key, ps)" by (cases f) auto
  show ?case
  proof (cases "unpack_flow_key key")
    case (Inl e)
    then show ?thesis by (cases e) (simp add: f)
  next
    case (Inr tr)
    then have "\<exists>f \<in> set flows. unpack_flow_key (fst f) = Inl ValueError"
      using Cons.prems by (auto simp: f)
    then show ?thesis using Cons.IH Inr by (cases tr) (simp add: f)
  qed
qed

lemma group_flows_keys: "fst ` set (group_flows network_data) = flow_key ` set network_data"
  by (auto simp: group_flows_grouped grouped_def set_first_seen image_iff)

lemma analyze_flows_raises:
  assumes "p \<in> set network_data"
    and "CHR '':'' \<in> set (get_or (src p) []) \<or> CHR '':'' \<in> set (get_or (dst p) [])"
  shows "analyze_flows lib env beh network_data t = Inl ValueError"
proof -
  have "flow_key p \<in> fst ` set (group_flows network_data)"
    using assms(1) by (simp add: group_flows_keys)
  then obtain f where f: "f \<in> set (group_flows network_data)" and k: "fst f = flow_key p" by auto
  have "unpack_flow_key (fst f) = Inl ValueError"
    unfolding k by (rule unpack_flow_key_separator [OF assms(2)])
  with f have "\<exists>f \<in> set (group_flows network_data). unpack_flow_key (fst f) = Inl ValueError"
    by blast
  then show ?thesis unfolding analyze_flows_def by (rule flows_loop_raises)
qed

lemma ml_analyze_raises:
  assumes "p \<in> set network_data"
    and "CHR '':'' \<in> set (get_or (src p) []) \<or> CHR '':'' \<in> set (get_or (dst p) [])"
  shows "fst (ml_analyze lib env t network_data s) = Inl ValueError"
proof -
  have "network_data \<noteq> []" using assms(1) by auto
  then show ?thesis
    by (simp add: ml_analyze_def analyze_flows_raises [OF assms] split: prod.splits)
qed

subsection \<open>Alerts of the classifier stage\<close>

lemma cnn_loop_types:
  "\<forall>a \<in> set (fst acc). hd (alert_type a) = CHR ''M'' \<Longrightarrow>
   \<forall>a \<in> set (fst (snd (cnn_loop env pkts i preds acc))). hd (alert_type a) = CHR ''M''"
proof (induction preds arbitrary: i acc)
  case Nil
  then show ?case by simp
next
  case (Cons pred preds)
  show ?case
  proof (cases "argmax pred")
    case None
    then show ?thesis using Cons.prems by simp
  next
    case (Some idx)
    let ?p = "if i < length pkts then pkts ! i else last pkts"
    show ?thesis
    proof (cases "idx > 0 \<and> pred ! idx > probability_threshold")
      case True
      let ?acc = "(fst acc @ [cnn_alert env ?p idx (pred ! idx)],
                   record_score (get_or (src ?p) []) (pred ! idx) (snd acc))"
      have "\<forall>a \<in> set (fst ?acc). hd (alert_type a) = CHR ''M''"
        using Cons.prems by (auto simp: cnn_alert_def)
      then have "\<forall>a \<in> set (fst (snd (cnn_loop env pkts (Suc i) preds ?acc))). hd (alert_type a) = CHR ''M''"
        by (rule Cons.IH)
      then show ?thesis using Some True by (simp add: Let_def)
    next
      case False
      have "\<forall>a \<in> set (fst (snd (cnn_loop env pkts (Suc i) preds acc))). hd (alert_type a) = CHR ''M''"
        using Cons.prems by (rule Cons.IH)
      then show ?thesis using Some False by (auto simp: Let_def)
    qed
  qed
qed

lemma svm_loop_types:
  "\<forall>a \<in> set (svm_loop t pkts i preds). hd (alert_type a) = CHR ''M''"
  by (induction preds arbitrary: i) (auto simp: Let_def svm_alert_def)

lemma svm_stage_types: "\<forall>a \<in> set (svm_stage env pkts). hd (alert_type a) = CHR ''M''"
  using svm_loop_types by (auto simp: svm_stage_def split: model_result.splits)

lemma run_ml_detection_types:
  "\<forall>a \<in> set (fst (run_ml_detection env pkts d)). hd (alert_type a) = CHR ''M''"
proof (cases "pkts = []")
  case True
  then show ?thesis by (simp add: run_ml_detection_def)
next
  case False
  show ?thesis
  proof (cases "cnn_model env")
    case Absent
    then show ?thesis using False svm_stage_types by (simp add: run_ml_detection_def)
  next
    case Raises
    then show ?thesis using False by (simp add: run_ml_detection_def)
  next
    case (Preds cnn_preds)
    obtain ok alerts d' where r: "cnn_loop env pkts 0 cnn_preds ([], d) = (ok, alerts, d')"
      by (cases "cnn_loop env pkts 0 cnn_preds ([], d)") auto
    have "\<forall>a \<in> set (fst (snd (cnn_loop env pkts 0 cnn_preds ([], d)))). hd (alert_type a) = CHR ''M''"
      by (rule cnn_loop_types) simp
    then have "\<forall>a \<in> set alerts. hd (alert_type a) = CHR ''M''" by (simp add: r)
    then show ?thesis
      using False Preds r svm_stage_types [of env pkts] by (auto simp: run_ml_detection_def)
  qed
qed

lemma ml_ingest_alerts:
  "fst (ml_ingest env t network_data s)
     = (if batch_size \<le> length network_data
        then fst (run_ml_detection env network_data
                    (foldl (update_ip_behavior t) (ip_behavior s) network_data))
        else [])"
  by (simp add: ml_ingest_def Let_def split: prod.splits)

lemma ml_ingest_types:
  "\<forall>a \<in> set (fst (ml_ingest env t network_data s)). hd (alert_type a) = CHR ''M''"
  using run_ml_detection_types
    [of env network_data "foldl (update_ip_behavior t) (ip_behavior s) network_data"]
  by (auto simp: ml_ingest_alerts)

lemma ml_ingest_small:
  "length network_data < 64 \<Longrightarrow>
   ml_ingest env t network_data s
     = ([], \<lparr>packet_history = extend_history network_data (packet_history s),
             ip_behavior = foldl (update_ip_behavior t) (ip_behavior s) network_data\<rparr>)"
  by (simp add: ml_ingest_def batch_size_def Let_def)


subsection \<open>Alerts of the flow analysis\<close>

lemma flow_alert_kinds:
  "filter (\<lambda>a. alert_type a = ''Persistent Anomalous Behavior'') (flow_alerts lib env t beh s d n ps)
     = persistent_alerts env t beh s"
  "filter (\<lambda>a. alert_type a = ''Potential Brute Force'') (flow_alerts lib env t beh s d n ps)
     = brute_force_alerts t s d n ps"
  "filter (\<lambda>a. alert_type a = ''Large Data Transfer'') (flow_alerts lib env t beh s d n ps)
     = large_transfer_alerts lib t s d ps"
  by (auto simp: flow_alerts_def persistent_alerts_def brute_force_alerts_def
      large_transfer_alerts_def split: option.splits)

lemma filter_concat_map:
  "filter P (concat (map f xs)) = concat (map (\<lambda>x. filter P (f x)) xs)"
  by (induction xs) auto

lemma ml_alerts_not_flow_kind:
  assumes "hd kind \<noteq> CHR ''M''"
  shows "filter (\<lambda>a. alert_type a = kind) (fst (ml_ingest env t network_data s)) = []"
proof (rule filter_none)
  fix a assume "a \<in> set (fst (ml_ingest env t network_data s))"
  then have "hd (alert_type a) = CHR ''M''" using ml_ingest_types by blast
  then show "alert_type a \<noteq> kind" using assms by auto
qed

lemma persistent_alerts_unfold:
  "persistent_alerts env t beh ip
     = (case map_of beh ip of
          None \<Rightarrow> []
        | Some e \<Rightarrow>
            if scores e \<noteq> [] \<and> float_lit env (85 / 100) < float_mean env (scores e)
            then [\<lparr>timestamp = t,
                   alert_type = ''Persistent Anomalous Behavior'',
                   severity = ''high'',
                   source = ''ml_network_analyzer'',
                   description = ''IP '' @ ip @ '' shows persistent anomalous behavior (score: ''
                     @ format_2f (float_mean env (scores e)) @ '')''\<rparr>]
            else [])"
  by (simp add: persistent_alerts_def anomaly_threshold_def split: option.splits)

text \<open>
  C4, as the code has it. In a call of \<open>analyze\<close> on a batch whose addresses are
  free of the separator, the ``Persistent Anomalous Behavior'' alerts returned are
  exactly one per flow of the batch, in flow order, whose source IP is tracked with at
  least one recorded score and for which the mean of the recorded scores, as line 414
  computes it in floating point, exceeds the float that the literal 0.85 denotes; the
  scores are those of the per-IP behaviour after the classifier stage of this call, and
  each alert is of high severity. An IP with two such flows in the batch gets two alerts,
  an IP that sent nothing in the batch gets none.
\<close>

theorem persistent_alert_per_flow:
  assumes "plain_addresses network_data"
  shows "\<exists>alerts. fst (ml_analyze lib env t network_data s) = Inr alerts
    \<and> filter (\<lambda>a. alert_type a = ''Persistent Anomalous Behavior'') alerts
      = concat (map (\<lambda>(tr, ps).
          case map_of (ip_behavior (snd (ml_ingest env t network_data s))) (fst tr) of
            None \<Rightarrow> []
          | Some e \<Rightarrow>
              if scores e \<noteq> [] \<and> float_lit env (85 / 100) < float_mean env (scores e)
              then [\<lparr>timestamp = t,
                     alert_type = ''Persistent Anomalous Behavior'',
                     severity = ''high'',
                     source = ''ml_network_analyzer'',
                     description = ''IP '' @ fst tr @ '' shows persistent anomalous behavior (score: ''
                       @ format_2f (float_mean env (scores e)) @ '')''\<rparr>]
              else [])
          (flows_of network_data))"
proof (cases "network_data = []")
  case True
  then show ?thesis by (simp add: ml_analyze_def flows_of_def first_seen_def)
next
  case False
  let ?beh = "ip_behavior (snd (ml_ingest env t network_data s))"
  let ?P = "\<lambda>a. alert_type a = ''Persistent Anomalous Behavior''"
  let ?flow = "\<lambda>(tr, ps). flow_alerts lib env t ?beh (fst tr) (fst (snd tr)) (snd (snd tr)) ps"
  have run: "fst (ml_analyze lib env t network_data s)
      = Inr (fst (ml_ingest env t network_data s) @ concat (map ?flow (flows_of network_data)))"
    using False assms by (rule ml_analyze_plain)
  have ml: "filter ?P (fst (ml_ingest env t network_data s)) = []"
    by (rule ml_alerts_not_flow_kind) simp
  have "filter ?P (concat (map ?flow (flows_of network_data)))
          = concat (map (\<lambda>f. filter ?P (?flow f)) (flows_of network_data))"
    by (rule filter_concat_map)
  also have "\<dots> = concat (map (\<lambda>(tr, ps). persistent_alerts env t ?beh (fst tr)) (flows_of network_data))"
    by (intro arg_cong [where f = concat] map_cong refl) (auto simp: flow_alert_kinds)
  finally have "filter ?P (fst (ml_ingest env t network_data s) @ concat (map ?flow (flows_of network_data)))
      = concat (map (\<lambda>(tr, ps). persistent_alerts env t ?beh (fst tr)) (flows_of network_data))"
    using ml by simp
  then show ?thesis
    unfolding run persistent_alerts_unfold by blast
qed


lemma two_flows_facts:
  "two_flows \<noteq> []" "plain_addresses two_flows"
  "flows_of two_flows
     = [((''8.8.8.8'', ''10.0.0.9'', 80), [mk_packet ''8.8.8.8'' ''10.0.0.9'' 80 60]),
        ((''8.8.8.8'', ''10.0.0.9'', 8080), [mk_packet ''8.8.8.8'' ''10.0.0.9'' 8080 60])]"
  "fst (ml_ingest no_models 100 two_flows watched) = []"
  "ip_behavior (snd (ml_ingest no_models 100 two_flows watched))
     = [(''8.8.8.8'', \<lparr>packets = 3, last_seen = 100, scores = [15 / 16]\<rparr>),
        (''10.0.0.9'', \<lparr>packets = 63, last_seen = 99, scores = [31 / 32]\<rparr>)]"
  by (simp_all add: two_flows_def plain_addresses_def mk_packet_def get_or_def flows_of_def
      first_seen_def flow_triple_def ml_ingest_small watched_def watched_behavior_def
      update_ip_behavior_def Let_def)

lemma no_models_floats:
  "float_mean no_models = avg_score" "float_lit no_models = example_float_lit"
  by (simp_all add: no_models_def)

lemma format_2f_094: "format_2f (15 / 16) = ''0.94''"
  by (simp add: format_2f_def round_half_even_def show_nat.simps digit_char_def)

theorem persistent_alert_per_flow_witness:
  "two_flows \<noteq> [] \<and> plain_addresses two_flows
   \<and> (\<exists>alerts. fst (ml_analyze example_ipaddress no_models 100 two_flows watched) = Inr alerts
        \<and> filter (\<lambda>a. alert_type a = ''Persistent Anomalous Behavior'') alerts
          = [persistent_8888, persistent_8888])"
  using persistent_alert_per_flow
    [OF two_flows_facts(2), of example_ipaddress no_models 100 watched]
  by (simp add: two_flows_facts format_2f_094 persistent_8888_def no_models_floats avg_score_def
      example_float_lit_def)

lemma dict_set_twice: "dict_set k v (dict_set k v' d) = dict_set k v d"
  by (induction d) auto

lemma update_ip_behavior_replicate:
  assumes "get_or (src p) [] \<noteq> []"
  shows "foldl (update_ip_behavior t) d (replicate (Suc n) p)
     = dict_set (get_or (src p) [])
         ((get_or (map_of d (get_or (src p) [])) \<lparr>packets = 0, last_seen = 0, scores = []\<rparr>)
            \<lparr>packets := packets (get_or (map_of d (get_or (src p) []))
                                   \<lparr>packets = 0, last_seen = 0, scores = []\<rparr>) + Suc n,
             last_seen := t\<rparr>) d"
proof (induction n arbitrary: d)
  case 0
  then show ?case using assms by (simp add: update_ip_behavior_def Let_def)
next
  case (Suc n)
  let ?ip = "get_or (src p) []"
  let ?e = "get_or (map_of d ?ip) \<lparr>packets = 0, last_seen = 0, scores = []\<rparr>"
  let ?d = "dict_set ?ip (?e\<lparr>packets := packets ?e + 1, last_seen := t\<rparr>) d"
  have one: "update_ip_behavior t d p = ?d"
    using assms by (simp add: update_ip_behavior_def Let_def)
  have "foldl (update_ip_behavior t) d (replicate (Suc (Suc n)) p)
          = foldl (update_ip_behavior t) ?d (replicate (Suc n) p)"
    by (simp add: one)
  also have "\<dots> = dict_set ?ip
      ((get_or (map_of ?d ?ip) \<lparr>packets = 0, last_seen = 0, scores = []\<rparr>)
         \<lparr>packets := packets (get_or (map_of ?d ?ip) \<lparr>packets = 0, last_seen = 0, scores = []\<rparr>) + Suc n,
          last_seen := t\<rparr>) ?d"
    by (rule Suc.IH)
  finally show ?case
    by (simp add: map_of_dict_set_same dict_set_twice get_or_def)
qed

lemma first_batch_facts:
  "first_batch \<noteq> []" "length first_batch = 64" "plain_addresses first_batch"
  "first_batch ! 0 = mk_packet ''8.8.8.8'' ''10.0.0.9'' 80 60"
  "first_batch ! Suc 0 = mk_packet ''10.0.0.9'' ''8.8.8.8'' 443 60"
  by (simp_all add: first_batch_def plain_addresses_def list_all_iff mk_packet_def get_or_def)

lemma first_batch_counted:
  "foldl (update_ip_behavior 99) [] first_batch
     = [(''8.8.8.8'', \<lparr>packets = 1, last_seen = 99, scores = []\<rparr>),
        (''10.0.0.9'', \<lparr>packets = 63, last_seen = 99, scores = []\<rparr>)]"
proof -
  have src: "get_or (src (mk_packet ''10.0.0.9'' ''8.8.8.8'' 443 60)) [] = ''10.0.0.9''"
    by (simp add: mk_packet_def get_or_def)
  have r: "replicate 63 (mk_packet ''10.0.0.9'' ''8.8.8.8'' 443 60)
             = replicate (Suc 62) (mk_packet ''10.0.0.9'' ''8.8.8.8'' 443 60)"
    by simp
  have "foldl (update_ip_behavior 99) [] first_batch
          = foldl (update_ip_behavior 99) [(''8.8.8.8'', \<lparr>packets = 1, last_seen = 99, scores = []\<rparr>)]
              (replicate (Suc 62) (mk_packet ''10.0.0.9'' ''8.8.8.8'' 443 60))"
    unfolding first_batch_def r
    by (simp add: update_ip_behavior_def mk_packet_def get_or_def Let_def del: replicate.simps)
  also have "\<dots> = [(''8.8.8.8'', \<lparr>packets = 1, last_seen = 99, scores = []\<rparr>),
        (''10.0.0.9'', \<lparr>packets = 63, last_seen = 99, scores = []\<rparr>)]"
    by (subst update_ip_behavior_replicate) (simp_all add: mk_packet_def get_or_def)
  finally show ?thesis .
qed

lemma ml_analyze_state_plain:
  assumes "network_data \<noteq> []" and "plain_addresses network_data"
  shows "snd (ml_analyze lib env t network_data s)
     = (snd (ml_ingest env t network_data s))
         \<lparr>ip_behavior := cleanup_old_data (t - 3600) (ip_behavior (snd (ml_ingest env t network_data s)))\<rparr>"
  using assms(1) by (simp add: ml_analyze_def analyze_flows_plain [OF assms(2)] split: prod.splits)

lemma first_batch_reaches_watched:
  "snd (ml_analyze example_ipaddress first_env 99 first_batch ml_network_analyzer_init) = watched"
proof -
  have ing: "snd (ml_ingest first_env 99 first_batch ml_network_analyzer_init) = watched"
    by (simp add: ml_ingest_def Let_def ml_network_analyzer_init_def first_batch_counted
        first_batch_facts batch_size_def extend_history_def history_limit_def
        run_ml_detection_def first_env_def svm_stage_def argmax_def probability_threshold_def
        record_score_def mk_packet_def get_or_def watched_def watched_behavior_def)
  show ?thesis
    unfolding ml_analyze_state_plain [OF first_batch_facts(1,3)] ing
    by (simp add: watched_def watched_behavior_def cleanup_old_data_def dict_keys_def dict_del_def)
qed

text \<open>
  C4 as stated fails. A first batch of 64 packets leaves one recorded score for 8.8.8.8
  (0.9375) and one for 10.0.0.9 (0.96875). In the next call, with two flows from 8.8.8.8
  in the batch, there are two alerts for that IP, and 10.0.0.9, whose one recorded score
  is its mean and exceeds 0.85, gets none because it sent nothing in this batch.
\<close>

theorem persistent_alert_per_ip_counterexample:
  "snd (ml_analyze example_ipaddress first_env 99 first_batch ml_network_analyzer_init) = watched
   \<and> map_of (ip_behavior watched) ''10.0.0.9''
     = Some \<lparr>packets = 63, last_seen = 99, scores = [31 / 32]\<rparr>
   \<and> anomaly_threshold < avg_score [31 / 32]
   \<and> float_lit no_models anomaly_threshold < float_mean no_models [31 / 32]
   \<and> fst (ml_analyze example_ipaddress no_models 100 two_flows watched)
       = Inr [persistent_8888, persistent_8888]"
proof -
  have "fst (ml_analyze example_ipaddress no_models 100 two_flows watched)
          = Inr [persistent_8888, persistent_8888]"
    unfolding ml_analyze_plain [OF two_flows_facts(1,2)] two_flows_facts
    by (simp add: flow_alerts_def brute_force_alerts_def large_transfer_alerts_def
        persistent_alerts_unfold is_internal_ip_def example_ipaddress_def mk_packet_def
        get_or_def format_2f_094 persistent_8888_def no_models_floats avg_score_def
        example_float_lit_def)
  then show ?thesis
    using first_batch_reaches_watched
    by (simp add: watched_def watched_behavior_def avg_score_def anomaly_threshold_def
        no_models_floats example_float_lit_def)
qed

subsection \<open>Brute force and large transfers on plain batches\<close>

lemma plain_flow_alerts_of_kind:
  assumes "network_data \<noteq> []" and "plain_addresses network_data" and "hd kind \<noteq> CHR ''M''"
  shows "\<exists>alerts. fst (ml_analyze lib env t network_data s) = Inr alerts
    \<and> filter (\<lambda>a. alert_type a = kind) alerts
      = concat (map (\<lambda>(tr, ps). filter (\<lambda>a. alert_type a = kind)
          (flow_alerts lib env t (ip_behavior (snd (ml_ingest env t network_data s)))
             (fst tr) (fst (snd tr)) (snd (snd tr)) ps)) (flows_of network_data))"
proof -
  let ?flow = "\<lambda>(tr, ps). flow_alerts lib env t (ip_behavior (snd (ml_ingest env t network_data s)))
                 (fst tr) (fst (snd tr)) (snd (snd tr)) ps"
  have run: "fst (ml_analyze lib env t network_data s)
      = Inr (fst (ml_ingest env t network_data s) @ concat (map ?flow (flows_of network_data)))"
    using assms(1,2) by (rule ml_analyze_plain)
  have ml: "filter (\<lambda>a. alert_type a = kind) (fst (ml_ingest env t network_data s)) = []"
    using assms(3) by (rule ml_alerts_not_flow_kind)
  have "filter (\<lambda>a. alert_type a = kind) (concat (map ?flow (flows_of network_data)))
          = concat (map (\<lambda>f. filter (\<lambda>a. alert_type a = kind) (?flow f)) (flows_of network_data))"
    by (rule filter_concat_map)
  also have "\<dots> = concat (map (\<lambda>(tr, ps). filter (\<lambda>a. alert_type a = kind)
          (flow_alerts lib env t (ip_behavior (snd (ml_ingest env t network_data s)))
             (fst tr) (fst (snd tr)) (snd (snd tr)) ps)) (flows_of network_data))"
    by (intro arg_cong [where f = concat] map_cong refl) auto
  finally show ?thesis unfolding run using ml by simp
qed

lemma plain_brute_force_alerts:
  assumes "network_data \<noteq> []" and "plain_addresses network_data"
  shows "\<exists>alerts. fst (ml_analyze lib env t network_data s) = Inr alerts
    \<and> filter (\<lambda>a. alert_type a = ''Potential Brute Force'') alerts
      = concat (map (\<lambda>(tr, ps).
          if 10 < length ps \<and> snd (snd tr) \<in> {22, 23, 3389, 445}
          then [\<lparr>timestamp = t,
                 alert_type = ''Potential Brute Force'',
                 severity = ''high'',
                 source = ''ml_network_analyzer'',
                 description = ''Excessive connection attempts from '' @ fst tr @ '' to ''
                   @ fst (snd tr) @ '':'' @ show_int (snd (snd tr))\<rparr>]
          else []) (flows_of network_data))"
  using plain_flow_alerts_of_kind [OF assms, of "''Potential Brute Force''" lib env t s]
  by (simp add: flow_alert_kinds brute_force_alerts_def)

lemma plain_large_transfer_alerts:
  assumes "network_data \<noteq> []" and "plain_addresses network_data"
  shows "\<exists>alerts. fst (ml_analyze lib env t network_data s) = Inr alerts
    \<and> filter (\<lambda>a. alert_type a = ''Large Data Transfer'') alerts
      = concat (map (\<lambda>(tr, ps).
          if lib (fst (snd tr)) \<noteq> Some True \<and> 100000 < sum_list (map (\<lambda>p. get_or (psize p) 0) ps)
          then [\<lparr>timestamp = t,
                 alert_type = ''Large Data Transfer'',
                 severity = ''medium'',
                 source = ''ml_network_analyzer'',
                 description = ''Large data transfer from '' @ fst tr @ '' to external IP ''
                   @ fst (snd tr)\<rparr>]
          else []) (flows_of network_data))"
proof -
  have lt: "large_transfer_alerts lib t s' d ps
      = (if lib d \<noteq> Some True \<and> 100000 < sum_list (map (\<lambda>p. get_or (psize p) 0) ps)
         then [\<lparr>timestamp = t,
                alert_type = ''Large Data Transfer'',
                severity = ''medium'',
                source = ''ml_network_analyzer'',
                description = ''Large data transfer from '' @ s' @ '' to external IP '' @ d\<rparr>]
         else [])" for s' d ps
    by (cases "lib d") (auto simp: large_transfer_alerts_def is_internal_ip_def)
  show ?thesis
    using plain_flow_alerts_of_kind [OF assms, of "''Large Data Transfer''" lib env t s]
    by (simp add: flow_alert_kinds lt)
qed

subsection \<open>Separators in addresses\<close>

lemma remdups_replicate_Suc: "remdups (replicate (Suc n) x) = [x]"
  by (induction n) auto

lemma flows_of_replicate:
  "flows_of (replicate (Suc n) p) = [(flow_triple p, replicate (Suc n) p)]"
proof -
  have "first_seen (map flow_triple (replicate (Suc n) p)) = [flow_triple p]"
    unfolding first_seen_def map_replicate rev_replicate remdups_replicate_Suc by simp
  moreover have "filter (\<lambda>q. flow_triple q = flow_triple p) (replicate (Suc n) p) = replicate (Suc n) p"
    by (rule filter_all) auto
  ultimately show ?thesis by (simp add: flows_of_def del: replicate.simps)
qed

lemma dict_set_entries: "set (dict_set k v d) \<subseteq> insert (k, v) (set d)"
  by (induction d) auto

lemma no_scores_lookup:
  assumes "\<forall>e \<in> set d. scores (snd e) = []" and "map_of d k = Some e"
  shows "scores e = []"
proof -
  have "(k, e) \<in> set d" using assms(2) by (rule map_of_SomeD)
  with assms(1) show ?thesis by fastforce
qed

lemma update_ip_behavior_no_scores:
  assumes "\<forall>e \<in> set d. scores (snd e) = []"
  shows "\<forall>e \<in> set (update_ip_behavior t d p). scores (snd e) = []"
proof (cases "get_or (src p) [] = []")
  case True
  then show ?thesis using assms by (simp add: update_ip_behavior_def)
next
  case False
  let ?e = "get_or (map_of d (get_or (src p) [])) \<lparr>packets = 0, last_seen = 0, scores = []\<rparr>"
  let ?e' = "?e\<lparr>packets := packets ?e + 1, last_seen := t\<rparr>"
  have "scores ?e = []"
  proof (cases "map_of d (get_or (src p) [])")
    case None
    then show ?thesis by (simp add: get_or_def)
  next
    case (Some e)
    then show ?thesis using no_scores_lookup [OF assms Some] by (simp add: get_or_def)
  qed
  then have e': "scores ?e' = []" by simp
  have upd: "update_ip_behavior t d p = dict_set (get_or (src p) []) ?e' d"
    using False by (simp add: update_ip_behavior_def Let_def)
  show ?thesis
  proof
    fix x assume "x \<in> set (update_ip_behavior t d p)"
    then have "x = (get_or (src p) [], ?e') \<or> x \<in> set d"
      unfolding upd using dict_set_entries [of "get_or (src p) []" ?e' d] by blast
    then show "scores (snd x) = []" using e' assms by auto
  qed
qed

lemma foldl_update_no_scores:
  "\<forall>e \<in> set d. scores (snd e) = [] \<Longrightarrow>
   \<forall>e \<in> set (foldl (update_ip_behavior t) d network_data). scores (snd e) = []"
proof (induction network_data arbitrary: d)
  case Nil
  then show ?case by simp
next
  case (Cons p network_data)
  have "\<forall>e \<in> set (update_ip_behavior t d p). scores (snd e) = []"
    using Cons.prems by (rule update_ip_behavior_no_scores)
  then have "\<forall>e \<in> set (foldl (update_ip_behavior t) (update_ip_behavior t d p) network_data).
               scores (snd e) = []"
    by (rule Cons.IH)
  then show ?case by simp
qed

lemma persistent_alerts_no_scores:
  assumes "\<forall>e \<in> set d. scores (snd e) = []"
  shows "persistent_alerts env t d ip = []"
proof (cases "map_of d ip")
  case None
  then show ?thesis by (simp add: persistent_alerts_def)
next
  case (Some e)
  then show ?thesis using no_scores_lookup [OF assms Some] by (simp add: persistent_alerts_def)
qed

lemma fresh_small_batch:
  assumes "network_data \<noteq> []" and "length network_data < 64" and "plain_addresses network_data"
  shows "fst (ml_analyze lib env t network_data ml_network_analyzer_init)
     = Inr (concat (map (\<lambda>(tr, ps).
          brute_force_alerts t (fst tr) (fst (snd tr)) (snd (snd tr)) ps
            @ large_transfer_alerts lib t (fst tr) (fst (snd tr)) ps) (flows_of network_data)))"
proof -
  let ?d = "foldl (update_ip_behavior t) [] network_data"
  have "\<forall>e \<in> set ?d. scores (snd e) = []" by (rule foldl_update_no_scores) simp
  then have pa: "persistent_alerts env t ?d ip = []" for ip by (rule persistent_alerts_no_scores)
  have ing: "fst (ml_ingest env t network_data ml_network_analyzer_init) = []"
    "ip_behavior (snd (ml_ingest env t network_data ml_network_analyzer_init)) = ?d"
    by (simp_all add: ml_ingest_small [OF assms(2)] ml_network_analyzer_init_def)
  show ?thesis
    unfolding ml_analyze_plain [OF assms(1,3)] ing flow_alerts_def pa by simp
qed

lemma ssh_flood_facts:
  "ssh_flood \<noteq> []" "length ssh_flood < 64" "plain_addresses ssh_flood"
  "flows_of ssh_flood = [((''8.8.8.8'', ''10.0.0.9'', 22), ssh_flood)]"
proof -
  have eleven: "ssh_flood = replicate (Suc 10) (mk_packet ''8.8.8.8'' ''10.0.0.9'' 22 60)"
    by (simp add: ssh_flood_def)
  show "ssh_flood \<noteq> []" "length ssh_flood < 64" by (simp_all add: ssh_flood_def)
  show "plain_addresses ssh_flood"
    by (simp add: ssh_flood_def plain_addresses_def list_all_iff mk_packet_def get_or_def)
  show "flows_of ssh_flood = [((''8.8.8.8'', ''10.0.0.9'', 22), ssh_flood)]"
    unfolding eleven flows_of_replicate by (simp add: flow_triple_def mk_packet_def get_or_def)
qed

text \<open>
  C2 fails on the code: eleven events of one flow to port 22 raise an alert when the source
  is an IPv4 address, and make \<open>analyze\<close> raise \<open>ValueError\<close> when it is an IPv6 address.
\<close>

theorem brute_force_ipv6_source_raises:
  "fst (ml_analyze example_ipaddress no_models 100 ssh_flood ml_network_analyzer_init)
     = Inr [brute_force_8888]
   \<and> fst (ml_analyze example_ipaddress no_models 100 ssh_flood_v6 ml_network_analyzer_init)
     = Inl ValueError"
proof -
  have v4: "fst (ml_analyze example_ipaddress no_models 100 ssh_flood ml_network_analyzer_init)
     = Inr [brute_force_8888]"
    unfolding fresh_small_batch [OF ssh_flood_facts(1,2,3)] ssh_flood_facts(4)
    by (simp add: brute_force_alerts_def large_transfer_alerts_def is_internal_ip_def
        example_ipaddress_def show_int_def show_nat.simps digit_char_def brute_force_8888_def
        ssh_flood_def)
  have "mk_packet ''2606:4700:4700::1111'' ''10.0.0.9'' 22 60 \<in> set ssh_flood_v6"
    by (simp add: ssh_flood_v6_def)
  then have "fst (ml_analyze example_ipaddress no_models 100 ssh_flood_v6 ml_network_analyzer_init)
     = Inl ValueError"
    by (rule ml_analyze_raises) (simp add: mk_packet_def get_or_def)
  with v4 show ?thesis by simp
qed

text \<open>
  C3 fails on the code: one event with an IPv6 source added to the batch makes \<open>analyze\<close>
  raise \<open>ValueError\<close> to its caller, and the brute-force alert of the other flow is lost.
\<close>

theorem flow_failure_not_isolated:
  "fst (ml_analyze example_ipaddress no_models 100
         (ssh_flood @ [mk_packet ''2606:4700:4700::1111'' ''10.0.0.9'' 443 60])
         ml_network_analyzer_init)
     = Inl ValueError"
  by (rule ml_analyze_raises [of "mk_packet ''2606:4700:4700::1111'' ''10.0.0.9'' 443 60"])
     (simp_all add: mk_packet_def get_or_def)

text \<open>
  C6 fails on the code: a destination that is no IP address lets the large-transfer alert
  through when it is free of the separator, and makes \<open>analyze\<close> raise \<open>ValueError\<close>
  when it holds one (here an address followed by a port).
\<close>

theorem large_transfer_unparseable_destination:
  "example_ipaddress ''not-an-ip'' = None \<and> example_ipaddress ''10.0.0.9:8080'' = None
   \<and> fst (ml_analyze example_ipaddress no_models 100
            [mk_packet ''10.0.0.9'' ''not-an-ip'' 443 200000] ml_network_analyzer_init)
     = Inr [large_transfer_unparseable]
   \<and> fst (ml_analyze example_ipaddress no_models 100
            [mk_packet ''10.0.0.9'' ''10.0.0.9:8080'' 443 200000] ml_network_analyzer_init)
     = Inl ValueError"
proof -
  have facts: "[mk_packet ''10.0.0.9'' ''not-an-ip'' 443 200000] \<noteq> []"
    "length [mk_packet ''10.0.0.9'' ''not-an-ip'' 443 200000] < 64"
    "plain_addresses [mk_packet ''10.0.0.9'' ''not-an-ip'' 443 200000]"
    by (simp_all add: plain_addresses_def mk_packet_def get_or_def)
  have ok: "fst (ml_analyze example_ipaddress no_models 100
            [mk_packet ''10.0.0.9'' ''not-an-ip'' 443 200000] ml_network_analyzer_init)
     = Inr [large_transfer_unparseable]"
    unfolding fresh_small_batch [OF facts]
    by (simp add: mk_packet_def get_or_def flows_of_def first_seen_def
          flow_triple_def brute_force_alerts_def large_transfer_alerts_def is_internal_ip_def
          example_ipaddress_def large_transfer_unparseable_def)
  have "fst (ml_analyze example_ipaddress no_models 100
            [mk_packet ''10.0.0.9'' ''10.0.0.9:8080'' 443 200000] ml_network_analyzer_init)
     = Inl ValueError"
    by (rule ml_analyze_raises [of "mk_packet ''10.0.0.9'' ''10.0.0.9:8080'' 443 200000"])
       (simp_all add: mk_packet_def get_or_def)
  with ok show ?thesis by (simp add: example_ipaddress_def)
qed

subsection \<open>Events without a source\<close>

lemma foldl_skip:
  "(\<And>d p. \<not> P p \<Longrightarrow> f d p = d) \<Longrightarrow> foldl f d xs = foldl f d (filter P xs)"
  by (induction xs arbitrary: d) auto

lemma tracked_port_access:
  "ip_port_access (foldl (track_packet t) s network_data)
     = foldl (\<lambda>d p. track_port_access t p d) (ip_port_access s) network_data"
  by (induction network_data arbitrary: s) (simp_all add: track_packet_def)

lemma tracked_with_src:
  "ip_port_access (foldl (track_packet t) s network_data)
     = ip_port_access (foldl (track_packet t) s (with_src network_data))"
  unfolding tracked_port_access with_src_def
  by (rule foldl_skip) (simp add: track_port_access_def)

lemma attack_port_alerts_no_src:
  "get_or (src p) [] = [] \<Longrightarrow> attack_port_alerts lib t p = []"
  by (simp add: attack_port_alerts_def Let_def split: option.splits)

lemma attack_port_alerts_with_src:
  "concat (map (attack_port_alerts lib t) network_data)
     = concat (map (attack_port_alerts lib t) (with_src network_data))"
  by (induction network_data) (simp_all add: with_src_def attack_port_alerts_no_src)

lemma analyze_state:
  "network_data \<noteq> [] \<Longrightarrow>
   snd (analyze lib t network_data s)
     = cleanup_old_entries (t - 60) (foldl (track_packet t) s network_data)"
  by (simp add: analyze_def foldl_analyze_packet)

lemma cleaned_port_access:
  "ip_port_access s = ip_port_access s' \<Longrightarrow>
   ip_port_access (cleanup_old_entries c s) = ip_port_access (cleanup_old_entries c s')"
  by (simp add: cleanup_old_entries_def)

lemma analyze_medium_alerts:
  "filter (\<lambda>a. severity a = ''medium'') (fst (analyze lib t network_data s))
     = concat (map (attack_port_alerts lib t) network_data)"
proof (cases "network_data = []")
  case True
  then show ?thesis by (simp add: analyze_def)
next
  case False
  let ?med = "\<lambda>a. severity a = ''medium''"
  have a: "filter ?med (concat (map (attack_port_alerts lib t) network_data))
             = concat (map (attack_port_alerts lib t) network_data)"
    by (rule filter_all) (use attack_port_alerts_concat in blast)
  have b: "filter ?med (detect_port_scans t d) = []" for d
    by (rule filter_none) (use detect_port_scans_high in force)
  have c: "filter ?med (detect_deauth_attacks t d) = []" for d
    by (rule filter_none) (use detect_deauth_no_scan in force)
  show ?thesis
    unfolding analyze_alerts [OF False] filter_append a b c by simp
qed

lemma no_src_port_access:
  "with_src network_data \<noteq> [] \<Longrightarrow>
   ip_port_access (snd (analyze lib t network_data s))
     = ip_port_access (snd (analyze lib t (with_src network_data) s))"
proof -
  assume w: "with_src network_data \<noteq> []"
  then have ne: "network_data \<noteq> []" by (auto simp: with_src_def)
  show ?thesis
    unfolding analyze_state [OF ne] analyze_state [OF w]
    by (rule cleaned_port_access) (rule tracked_with_src)
qed

lemma only_no_src_port_access:
  assumes "network_data \<noteq> []" and "with_src network_data = []"
  shows "ip_port_access (snd (analyze lib t network_data s))
     = ip_port_access (cleanup_old_entries (t - 60) s)"
  unfolding analyze_state [OF assms(1)]
  by (rule cleaned_port_access) (simp add: tracked_with_src [of t s network_data] assms(2))

subsection \<open>The empty string is never a key of the per-IP behaviour\<close>

lemma map_of_filter_None: "map_of d k = None \<Longrightarrow> map_of (filter P d) k = None"
  by (induction d) (auto split: if_splits)

lemma update_ip_behavior_no_key:
  "map_of d [] = None \<Longrightarrow> map_of (update_ip_behavior t d p) [] = None"
  by (simp add: update_ip_behavior_def Let_def map_of_dict_set_other)

lemma foldl_update_no_key:
  "map_of d [] = None \<Longrightarrow> map_of (foldl (update_ip_behavior t) d network_data) [] = None"
  by (induction network_data arbitrary: d) (simp_all add: update_ip_behavior_no_key)

lemma record_score_no_key:
  "map_of d [] = None \<Longrightarrow> map_of (record_score ip c d) [] = None"
  by (cases "ip = []")
     (auto simp: record_score_def Let_def map_of_dict_set_other split: option.splits)

lemma cnn_loop_no_key:
  "map_of (snd acc) [] = None \<Longrightarrow>
   map_of (snd (snd (cnn_loop env pkts i preds acc))) [] = None"
proof (induction preds arbitrary: i acc)
  case Nil
  then show ?case by simp
next
  case (Cons pred preds)
  show ?case
  proof (cases "argmax pred")
    case None
    then show ?thesis using Cons.prems by simp
  next
    case (Some idx)
    let ?p = "if i < length pkts then pkts ! i else last pkts"
    show ?thesis
    proof (cases "idx > 0 \<and> pred ! idx > probability_threshold")
      case True
      let ?acc = "(fst acc @ [cnn_alert env ?p idx (pred ! idx)],
                   record_score (get_or (src ?p) []) (pred ! idx) (snd acc))"
      have "map_of (snd ?acc) [] = None"
        using Cons.prems by (simp add: record_score_no_key)
      then have "map_of (snd (snd (cnn_loop env pkts (Suc i) preds ?acc))) [] = None"
        by (rule Cons.IH)
      then show ?thesis using Some True by (simp add: Let_def)
    next
      case False
      have "map_of (snd (snd (cnn_loop env pkts (Suc i) preds acc))) [] = None"
        using Cons.prems by (rule Cons.IH)
      then show ?thesis using Some False by (auto simp: Let_def)
    qed
  qed
qed

lemma run_ml_detection_no_key:
  assumes "map_of d [] = None"
  shows "map_of (snd (run_ml_detection env pkts d)) [] = None"
proof (cases "pkts = []")
  case True
  then show ?thesis using assms by (simp add: run_ml_detection_def)
next
  case False
  show ?thesis
  proof (cases "cnn_model env")
    case Absent
    then show ?thesis using False assms by (simp add: run_ml_detection_def)
  next
    case Raises
    then show ?thesis using False assms by (simp add: run_ml_detection_def)
  next
    case (Preds cnn_preds)
    obtain ok alerts d' where r: "cnn_loop env pkts 0 cnn_preds ([], d) = (ok, alerts, d')"
      by (cases "cnn_loop env pkts 0 cnn_preds ([], d)") auto
    have "map_of (snd (snd (cnn_loop env pkts 0 cnn_preds ([], d)))) [] = None"
      by (rule cnn_loop_no_key) (simp add: assms)
    then have "map_of d' [] = None" by (simp add: r)
    then show ?thesis using False Preds r by (simp add: run_ml_detection_def)
  qed
qed

lemma ml_ingest_behavior:
  "ip_behavior (snd (ml_ingest env t network_data s))
     = (if batch_size \<le> length network_data
        then snd (run_ml_detection env network_data
                    (foldl (update_ip_behavior t) (ip_behavior s) network_data))
        else foldl (update_ip_behavior t) (ip_behavior s) network_data)"
  by (simp add: ml_ingest_def Let_def split: prod.splits)

lemma ml_ingest_no_key:
  "map_of (ip_behavior s) [] = None \<Longrightarrow>
   map_of (ip_behavior (snd (ml_ingest env t network_data s))) [] = None"
  by (simp add: ml_ingest_behavior run_ml_detection_no_key foldl_update_no_key)

lemma cleanup_data_loop_no_key:
  "map_of d [] = None \<Longrightarrow> map_of (cleanup_data_loop c ks d) [] = None"
proof (induction ks arbitrary: d)
  case Nil
  then show ?case by simp
next
  case (Cons k ks)
  have "map_of (case map_of d k of None \<Rightarrow> d
                | Some e \<Rightarrow> if last_seen e < c then dict_del k d else d) [] = None"
    using Cons.prems by (auto simp: dict_del_def map_of_filter_None split: option.splits)
  then show ?case using Cons.IH by simp
qed

lemma ml_analyze_behavior:
  "ip_behavior (snd (ml_analyze lib env t network_data s))
     = (if network_data = [] then ip_behavior s
        else case fst (ml_analyze lib env t network_data s) of
               Inl e \<Rightarrow> ip_behavior (snd (ml_ingest env t network_data s))
             | Inr alerts \<Rightarrow>
                 cleanup_old_data (t - 3600) (ip_behavior (snd (ml_ingest env t network_data s))))"
  by (simp add: ml_analyze_def split: prod.splits sum.splits)

lemma ml_analyze_no_key:
  assumes "map_of (ip_behavior s) [] = None"
  shows "map_of (ip_behavior (snd (ml_analyze lib env t network_data s))) [] = None"
  using assms ml_ingest_no_key [OF assms, of env t network_data]
  by (simp add: ml_analyze_behavior cleanup_old_data_def cleanup_data_loop_no_key split: sum.splits)


subsection \<open>Batches without any source\<close>

lemma update_ip_behavior_with_src:
  "foldl (update_ip_behavior t) d network_data
     = foldl (update_ip_behavior t) d (with_src network_data)"
  unfolding with_src_def
  by (rule foldl_skip) (simp add: update_ip_behavior_def)

lemma record_score_untracked: "map_of d ip = None \<Longrightarrow> record_score ip c d = d"
  by (simp add: record_score_def)

lemma cnn_loop_no_src:
  assumes "\<forall>p \<in> set pkts. get_or (src p) [] = []" and "pkts \<noteq> []"
  shows "map_of (snd acc) [] = None \<Longrightarrow> snd (snd (cnn_loop env pkts i preds acc)) = snd acc"
proof (induction preds arbitrary: i acc)
  case Nil
  then show ?case by simp
next
  case (Cons pred preds)
  show ?case
  proof (cases "argmax pred")
    case None
    then show ?thesis by simp
  next
    case (Some idx)
    let ?p = "if i < length pkts then pkts ! i else last pkts"
    have "?p \<in> set pkts" using assms(2) by simp
    then have src: "get_or (src ?p) [] = []" using assms(1) by blast
    show ?thesis
    proof (cases "idx > 0 \<and> pred ! idx > probability_threshold")
      case True
      let ?acc = "(fst acc @ [cnn_alert env ?p idx (pred ! idx)],
                   record_score (get_or (src ?p) []) (pred ! idx) (snd acc))"
      have same: "snd ?acc = snd acc"
        using Cons.prems by (simp only: src snd_conv record_score_untracked)
      then have "map_of (snd ?acc) [] = None" using Cons.prems by simp
      then have "snd (snd (cnn_loop env pkts (Suc i) preds ?acc)) = snd ?acc"
        by (rule Cons.IH)
      then show ?thesis using Some True same by (simp add: Let_def)
    next
      case False
      have "snd (snd (cnn_loop env pkts (Suc i) preds acc)) = snd acc"
        using Cons.prems by (rule Cons.IH)
      then show ?thesis using Some False by (auto simp: Let_def)
    qed
  qed
qed

lemma run_ml_detection_no_src:
  assumes "\<forall>p \<in> set pkts. get_or (src p) [] = []" and "map_of d [] = None"
  shows "snd (run_ml_detection env pkts d) = d"
proof (cases "pkts = []")
  case True
  then show ?thesis by (simp add: run_ml_detection_def)
next
  case False
  show ?thesis
  proof (cases "cnn_model env")
    case Absent
    then show ?thesis using False by (simp add: run_ml_detection_def)
  next
    case Raises
    then show ?thesis using False by (simp add: run_ml_detection_def)
  next
    case (Preds cnn_preds)
    obtain ok alerts d' where r: "cnn_loop env pkts 0 cnn_preds ([], d) = (ok, alerts, d')"
      by (cases "cnn_loop env pkts 0 cnn_preds ([], d)") auto
    have "snd (snd (cnn_loop env pkts 0 cnn_preds ([], d))) = snd ([] :: alert list, d)"
      by (rule cnn_loop_no_src [OF assms(1) False]) (simp add: assms(2))
    then have "d' = d" by (simp add: r)
    then show ?thesis using False Preds r by (simp add: run_ml_detection_def)
  qed
qed

lemma ml_ingest_no_src:
  assumes "with_src network_data = []" and "map_of (ip_behavior s) [] = None"
  shows "ip_behavior (snd (ml_ingest env t network_data s)) = ip_behavior s"
proof -
  have all: "\<forall>p \<in> set network_data. get_or (src p) [] = []"
    using assms(1) by (auto simp: with_src_def filter_empty_conv)
  have count: "foldl (update_ip_behavior t) (ip_behavior s) network_data = ip_behavior s"
    by (simp add: update_ip_behavior_with_src [of t _ network_data] assms(1))
  show ?thesis
    unfolding ml_ingest_behavior count
    by (simp add: run_ml_detection_no_src [OF all assms(2)])
qed

lemma ml_analyze_no_src:
  assumes "with_src network_data = []" and "map_of (ip_behavior s) [] = None"
  shows "ip_behavior (snd (ml_analyze lib env t network_data s))
     = (case fst (ml_analyze lib env t network_data s) of
          Inl e \<Rightarrow> ip_behavior s
        | Inr alerts \<Rightarrow>
            if network_data = [] then ip_behavior s
            else cleanup_old_data (t - 3600) (ip_behavior s))"
proof (cases "network_data = []")
  case True
  then show ?thesis by (simp add: ml_analyze_def)
next
  case False
  then show ?thesis
    unfolding ml_analyze_behavior [of lib env t network_data s] ml_ingest_no_src [OF assms]
    by (simp split: sum.splits)
qed

lemma plain_with_src: "plain_addresses network_data \<Longrightarrow> plain_addresses (with_src network_data)"
  by (simp add: plain_addresses_def with_src_def list_all_iff)

lemma ml_analyze_with_src:
  assumes "plain_addresses network_data" and "length network_data < batch_size"
    and "with_src network_data \<noteq> []"
  shows "ip_behavior (snd (ml_analyze lib env t network_data s))
     = ip_behavior (snd (ml_analyze lib env t (with_src network_data) s))"
proof -
  have ne: "network_data \<noteq> []" using assms(3) by (auto simp: with_src_def)
  have short: "length (with_src network_data) < batch_size"
    unfolding with_src_def
    by (rule le_less_trans [OF length_filter_le assms(2)])
  have "ip_behavior (snd (ml_ingest env t network_data s))
          = ip_behavior (snd (ml_ingest env t (with_src network_data) s))"
    using assms(2) short
    by (simp add: ml_ingest_behavior update_ip_behavior_with_src [of t _ network_data])
  then show ?thesis
    unfolding ml_analyze_state_plain [OF ne assms(1)]
      ml_analyze_state_plain [OF assms(3) plain_with_src [OF assms(1)]]
    by simp
qed

subsection \<open>The flow of an event without a source\<close>

lemma group_flows_lookup:
  assumes "p \<in> set network_data"
  shows "map_of (group_flows network_data) (flow_key p)
     = Some (filter (\<lambda>q. flow_key q = flow_key p) network_data)"
proof -
  have "flow_key p \<in> set (first_seen (map flow_key network_data))"
    using assms by (simp add: set_first_seen)
  then show ?thesis
    unfolding group_flows_grouped grouped_def by (simp add: map_of_keyed)
qed

lemma flow_key_no_src:
  "get_or (src p) [] = [] \<Longrightarrow>
   flow_key p = '':'' @ get_or (dst p) [] @ '':'' @ show_int (get_or (dport p) 0)"
  by (simp add: flow_key_def)

lemma same_flow_plain:
  assumes "plain_addresses network_data" and "p \<in> set network_data"
  shows "filter (\<lambda>q. flow_key q = flow_key p) network_data
     = filter (\<lambda>q. flow_triple q = flow_triple p) network_data"
proof (rule filter_cong [OF refl])
  fix q assume "q \<in> set network_data"
  then have a: "flow_triple q \<in> {tr. plain_triple tr}"
    using plain_addresses_triple [OF assms(1)] by simp
  have b: "flow_triple p \<in> {tr. plain_triple tr}"
    using plain_addresses_triple [OF assms] by simp
  show "(flow_key q = flow_key p) = (flow_triple q = flow_triple p)"
    unfolding flow_key_triple by (rule inj_on_eq_iff [OF triple_key_inj a b])
qed

lemma concat_memI: "x \<in> set xs \<Longrightarrow> a \<in> set (g x) \<Longrightarrow> a \<in> set (concat (map g xs))"
  by auto

lemma flow_gets_brute_force_alert:
  assumes "plain_addresses network_data" and "p \<in> set network_data"
    and "10 < length (filter (\<lambda>q. flow_key q = flow_key p) network_data)"
    and "get_or (dport p) 0 \<in> {22, 23, 3389, 445}"
  shows "\<exists>alerts. fst (ml_analyze lib env t network_data s) = Inr alerts
    \<and> \<lparr>timestamp = t, alert_type = ''Potential Brute Force'', severity = ''high'',
        source = ''ml_network_analyzer'',
        description = ''Excessive connection attempts from '' @ get_or (src p) [] @ '' to ''
          @ get_or (dst p) [] @ '':'' @ show_int (get_or (dport p) 0)\<rparr> \<in> set alerts"
proof -
  let ?a = "\<lparr>timestamp = t, alert_type = ''Potential Brute Force'', severity = ''high'',
        source = ''ml_network_analyzer'',
        description = ''Excessive connection attempts from '' @ get_or (src p) [] @ '' to ''
          @ get_or (dst p) [] @ '':'' @ show_int (get_or (dport p) 0)\<rparr>"
  let ?g = "\<lambda>(tr, ps).
          if 10 < length ps \<and> snd (snd tr) \<in> {22, 23, 3389, 445}
          then [\<lparr>timestamp = t,
                 alert_type = ''Potential Brute Force'',
                 severity = ''high'',
                 source = ''ml_network_analyzer'',
                 description = ''Excessive connection attempts from '' @ fst tr @ '' to ''
                   @ fst (snd tr) @ '':'' @ show_int (snd (snd tr))\<rparr>]
          else []"
  let ?f = "(flow_triple p, filter (\<lambda>q. flow_triple q = flow_triple p) network_data)"
  have ne: "network_data \<noteq> []" using assms(2) by auto
  obtain alerts where run: "fst (ml_analyze lib env t network_data s) = Inr alerts"
    and bf: "filter (\<lambda>a. alert_type a = ''Potential Brute Force'') alerts
               = concat (map ?g (flows_of network_data))"
    using plain_brute_force_alerts [OF ne assms(1), of lib env t s] by blast
  have mem: "?f \<in> set (flows_of network_data)"
    using assms(2) by (simp add: flows_of_def set_first_seen)
  have gf: "?g ?f = [?a]"
    using assms(3,4) unfolding same_flow_plain [OF assms(1,2)]
    by (simp add: flow_triple_def)
  have in1: "?a \<in> set (?g ?f)" by (simp only: gf list.set_intros)
  have in2: "?a \<in> set (concat (map ?g (flows_of network_data)))"
    using mem in1 by (rule concat_memI [of ?f "flows_of network_data" ?a ?g])
  have "?a \<in> set (filter (\<lambda>a. alert_type a = ''Potential Brute Force'') alerts)"
    unfolding bf by (rule in2)
  then have in3: "?a \<in> set alerts" by (simp only: set_filter mem_Collect_eq)
  show ?thesis
  proof (intro exI conjI)
    show "fst (ml_analyze lib env t network_data s) = Inr alerts" by (rule run)
    show "?a \<in> set alerts" by (rule in3)
  qed
qed


text \<open>
  C10 holds for a whole call. Let an event of the batch have no source. \<open>NetworkAnalyzer.analyze\<close>
  leaves the port-access tracker as the call on the events that carry a source leaves it (as the
  cleanup alone leaves it, when no event carries one) and raises the same access-attempt alerts
  as that call. \<open>MLNetworkAnalyzer.analyze\<close> never makes the empty string a key of
  \<open>ip_behavior\<close>; it leaves \<open>ip_behavior\<close> to the cleanup alone when no event of the batch
  carries a source, whatever the classifier returns, and as the call on the events with a source
  leaves it when the batch is below \<open>batch_size\<close> and its addresses hold no \<open>:\<close>. The event
  is nevertheless grouped by \<open>_analyze_flows\<close>: the flow dictionary holds, under the key that
  starts with the separator, the events of the batch with its key, the event among them, and a
  flow of more than ten such events to port 22, 23, 3389 or 445 raises the brute-force alert
  with an empty source.
\<close>

theorem empty_src_not_tracked:
  assumes "p \<in> set network_data" and "get_or (src p) [] = []"
  shows "(with_src network_data \<noteq> [] \<longrightarrow>
            ip_port_access (snd (analyze lib t network_data s))
              = ip_port_access (snd (analyze lib t (with_src network_data) s)))
    \<and> (with_src network_data = [] \<longrightarrow>
            ip_port_access (snd (analyze lib t network_data s))
              = ip_port_access (cleanup_old_entries (t - 60) s))
    \<and> filter (\<lambda>a. severity a = ''medium'') (fst (analyze lib t network_data s))
        = filter (\<lambda>a. severity a = ''medium'') (fst (analyze lib t (with_src network_data) s))
    \<and> (map_of (ip_behavior m) [] = None \<longrightarrow>
            map_of (ip_behavior (snd (ml_analyze lib env t network_data m))) [] = None)
    \<and> (with_src network_data = [] \<longrightarrow> map_of (ip_behavior m) [] = None \<longrightarrow>
            ip_behavior (snd (ml_analyze lib env t network_data m))
              = (case fst (ml_analyze lib env t network_data m) of
                   Inl e \<Rightarrow> ip_behavior m
                 | Inr alerts \<Rightarrow> cleanup_old_data (t - 3600) (ip_behavior m)))
    \<and> (plain_addresses network_data \<longrightarrow> length network_data < batch_size \<longrightarrow>
          with_src network_data \<noteq> [] \<longrightarrow>
            ip_behavior (snd (ml_analyze lib env t network_data m))
              = ip_behavior (snd (ml_analyze lib env t (with_src network_data) m)))
    \<and> map_of (group_flows network_data)
          ('':'' @ get_or (dst p) [] @ '':'' @ show_int (get_or (dport p) 0))
        = Some (filter (\<lambda>q. flow_key q = flow_key p) network_data)
    \<and> p \<in> set (filter (\<lambda>q. flow_key q = flow_key p) network_data)
    \<and> (plain_addresses network_data \<longrightarrow>
          10 < length (filter (\<lambda>q. flow_key q = flow_key p) network_data) \<longrightarrow>
          get_or (dport p) 0 \<in> {22, 23, 3389, 445} \<longrightarrow>
            (\<exists>alerts. fst (ml_analyze lib env t network_data m) = Inr alerts
               \<and> \<lparr>timestamp = t, alert_type = ''Potential Brute Force'', severity = ''high'',
                   source = ''ml_network_analyzer'',
                   description = ''Excessive connection attempts from  to ''
                     @ get_or (dst p) [] @ '':'' @ show_int (get_or (dport p) 0)\<rparr> \<in> set alerts))"
proof -
  have ne: "network_data \<noteq> []" using assms(1) by auto
  have n1: "with_src network_data \<noteq> [] \<longrightarrow>
            ip_port_access (snd (analyze lib t network_data s))
              = ip_port_access (snd (analyze lib t (with_src network_data) s))"
    by (rule impI) (rule no_src_port_access)
  have n3: "with_src network_data = [] \<longrightarrow>
            ip_port_access (snd (analyze lib t network_data s))
              = ip_port_access (cleanup_old_entries (t - 60) s)"
    by (rule impI) (rule only_no_src_port_access [OF ne])
  have n2: "filter (\<lambda>a. severity a = ''medium'') (fst (analyze lib t network_data s))
        = filter (\<lambda>a. severity a = ''medium'') (fst (analyze lib t (with_src network_data) s))"
    unfolding analyze_medium_alerts by (rule attack_port_alerts_with_src)
  have m1: "map_of (ip_behavior m) [] = None \<longrightarrow>
            map_of (ip_behavior (snd (ml_analyze lib env t network_data m))) [] = None"
    by (rule impI) (rule ml_analyze_no_key)
  have m2: "with_src network_data = [] \<longrightarrow> map_of (ip_behavior m) [] = None \<longrightarrow>
            ip_behavior (snd (ml_analyze lib env t network_data m))
              = (case fst (ml_analyze lib env t network_data m) of
                   Inl e \<Rightarrow> ip_behavior m
                 | Inr alerts \<Rightarrow> cleanup_old_data (t - 3600) (ip_behavior m))"
  proof (intro impI)
    assume a: "with_src network_data = []" and b: "map_of (ip_behavior m) [] = None"
    show "ip_behavior (snd (ml_analyze lib env t network_data m))
              = (case fst (ml_analyze lib env t network_data m) of
                   Inl e \<Rightarrow> ip_behavior m
                 | Inr alerts \<Rightarrow> cleanup_old_data (t - 3600) (ip_behavior m))"
      unfolding ml_analyze_no_src [OF a b, of lib env t] using ne by simp
  qed
  have m3: "plain_addresses network_data \<longrightarrow> length network_data < batch_size \<longrightarrow>
          with_src network_data \<noteq> [] \<longrightarrow>
            ip_behavior (snd (ml_analyze lib env t network_data m))
              = ip_behavior (snd (ml_analyze lib env t (with_src network_data) m))"
    by (intro impI) (rule ml_analyze_with_src)
  have f1: "map_of (group_flows network_data)
          ('':'' @ get_or (dst p) [] @ '':'' @ show_int (get_or (dport p) 0))
        = Some (filter (\<lambda>q. flow_key q = flow_key p) network_data)"
    using group_flows_lookup [OF assms(1)] unfolding flow_key_no_src [OF assms(2)] .
  have f2: "p \<in> set (filter (\<lambda>q. flow_key q = flow_key p) network_data)"
    using assms(1) by simp
  have f3: "plain_addresses network_data \<longrightarrow>
          10 < length (filter (\<lambda>q. flow_key q = flow_key p) network_data) \<longrightarrow>
          get_or (dport p) 0 \<in> {22, 23, 3389, 445} \<longrightarrow>
            (\<exists>alerts. fst (ml_analyze lib env t network_data m) = Inr alerts
               \<and> \<lparr>timestamp = t, alert_type = ''Potential Brute Force'', severity = ''high'',
                   source = ''ml_network_analyzer'',
                   description = ''Excessive connection attempts from  to ''
                     @ get_or (dst p) [] @ '':'' @ show_int (get_or (dport p) 0)\<rparr> \<in> set alerts)"
  proof (intro impI)
    assume a: "plain_addresses network_data"
      and b: "10 < length (filter (\<lambda>q. flow_key q = flow_key p) network_data)"
      and c: "get_or (dport p) 0 \<in> {22, 23, 3389, 445}"
    show "\<exists>alerts. fst (ml_analyze lib env t network_data m) = Inr alerts
               \<and> \<lparr>timestamp = t, alert_type = ''Potential Brute Force'', severity = ''high'',
                   source = ''ml_network_analyzer'',
                   description = ''Excessive connection attempts from  to ''
                     @ get_or (dst p) [] @ '':'' @ show_int (get_or (dport p) 0)\<rparr> \<in> set alerts"
      using flow_gets_brute_force_alert [OF a assms(1) b c, of lib env t m]
      by (simp add: assms(2))
  qed
  show ?thesis by (intro conjI) (rule n1 n3 n2 m1 m2 m3 f1 f2 f3)+
qed


theorem empty_src_not_tracked_witness:
  "example_no_src \<in> set no_src_flood \<and> get_or (src example_no_src) [] = []
   \<and> with_src no_src_flood = [mk_packet ''8.8.8.8'' ''10.0.0.9'' 22 60]
   \<and> ip_port_access (snd (analyze example_ipaddress 100 no_src_flood network_analyzer_init))
       = [(''8.8.8.8'', [(100, 22)])]
   \<and> filter (\<lambda>a. severity a = ''medium'')
        (fst (analyze example_ipaddress 100 no_src_flood network_analyzer_init))
       = [\<lparr>timestamp = 100, alert_type = ''SSH Access Attempt'', severity = ''medium'',
           source = ''network_traffic'',
           description = ''External IP 8.8.8.8 attempting to connect to SSH port 22''\<rparr>]
   \<and> plain_addresses no_src_flood \<and> length no_src_flood < batch_size
   \<and> ip_behavior (snd (ml_analyze example_ipaddress no_models 100 no_src_flood ml_network_analyzer_init))
       = [(''8.8.8.8'', \<lparr>packets = 1, last_seen = 100, scores = []\<rparr>)]
   \<and> map_of (group_flows no_src_flood) '':10.0.0.9:22'' = Some (replicate 11 example_no_src)
   \<and> (\<exists>alerts. fst (ml_analyze example_ipaddress no_models 100 no_src_flood ml_network_analyzer_init)
                  = Inr alerts
         \<and> \<lparr>timestamp = 100, alert_type = ''Potential Brute Force'', severity = ''high'',
             source = ''ml_network_analyzer'',
             description = ''Excessive connection attempts from  to 10.0.0.9:22''\<rparr> \<in> set alerts)
   \<and> example_no_src \<in> set (replicate 64 example_no_src)
   \<and> with_src (replicate 64 example_no_src) = []
   \<and> ip_port_access (snd (analyze example_ipaddress 99 (replicate 64 example_no_src)
        network_analyzer_init)) = []
   \<and> ip_behavior (snd (ml_analyze example_ipaddress first_env 99 (replicate 64 example_no_src)
        ml_network_analyzer_init)) = []"
proof -
  let ?pkt = "mk_packet ''8.8.8.8'' ''10.0.0.9'' 22 60"
  have h1: "example_no_src \<in> set no_src_flood" by (simp add: no_src_flood_def)
  have h2: "get_or (src example_no_src) [] = []" by (simp add: example_no_src_def get_or_def)
  have w: "with_src no_src_flood = [?pkt]"
    by (simp add: with_src_def no_src_flood_def example_no_src_def mk_packet_def get_or_def
        filter_replicate)
  have ne: "with_src no_src_flood \<noteq> []" by (simp add: w)
  have plain: "plain_addresses no_src_flood"
    by (simp add: plain_addresses_def no_src_flood_def list_all_iff example_no_src_def
        mk_packet_def get_or_def)
  have short: "length no_src_flood < batch_size" by (simp add: no_src_flood_def batch_size_def)
  have dst: "get_or (dst example_no_src) [] = ''10.0.0.9''" "get_or (dport example_no_src) 0 = 22"
    by (simp_all add: example_no_src_def get_or_def)
  have same: "filter (\<lambda>q. flow_key q = flow_key example_no_src) no_src_flood
                = replicate 11 example_no_src"
    by (simp add: no_src_flood_def flow_key_def mk_packet_def example_no_src_def get_or_def
        filter_replicate)
  note T1 = empty_src_not_tracked [where p = example_no_src and network_data = no_src_flood
      and lib = example_ipaddress and t = 100 and s = network_analyzer_init and env = no_models
      and m = ml_network_analyzer_init, OF h1 h2]
  have a1: "ip_port_access (snd (analyze example_ipaddress 100 [?pkt] network_analyzer_init))
              = [(''8.8.8.8'', [(100, 22)])]"
    by (simp add: analyze_state track_packet_def track_port_access_def track_deauth_def
        cleanup_old_entries_def dict_keys_def dict_append_def dict_del_def
        network_analyzer_init_def mk_packet_def get_or_def)
  have a2: "filter (\<lambda>a. severity a = ''medium'')
              (fst (analyze example_ipaddress 100 [?pkt] network_analyzer_init))
       = [\<lparr>timestamp = 100, alert_type = ''SSH Access Attempt'', severity = ''medium'',
           source = ''network_traffic'',
           description = ''External IP 8.8.8.8 attempting to connect to SSH port 22''\<rparr>]"
    by (simp add: analyze_medium_alerts attack_port_alerts_def suspicious_ports_def
        is_internal_ip_def example_ipaddress_def mk_packet_def get_or_def show_22)
  have a3: "ip_behavior (snd (ml_analyze example_ipaddress no_models 100 [?pkt]
                ml_network_analyzer_init))
       = [(''8.8.8.8'', \<lparr>packets = 1, last_seen = 100, scores = []\<rparr>)]"
  proof -
    have p1: "[?pkt] \<noteq> []" by simp
    have p2: "plain_addresses [?pkt]"
      by (simp add: plain_addresses_def mk_packet_def get_or_def)
    show ?thesis
      unfolding ml_analyze_state_plain [OF p1 p2]
      by (simp add: ml_ingest_behavior batch_size_def update_ip_behavior_def Let_def
          ml_network_analyzer_init_def mk_packet_def get_or_def cleanup_old_data_def
          dict_keys_def)
  qed
  have c1: "ip_port_access (snd (analyze example_ipaddress 100 no_src_flood network_analyzer_init))
       = [(''8.8.8.8'', [(100, 22)])]"
    using T1 ne by (simp add: w a1)
  have c2: "filter (\<lambda>a. severity a = ''medium'')
        (fst (analyze example_ipaddress 100 no_src_flood network_analyzer_init))
       = [\<lparr>timestamp = 100, alert_type = ''SSH Access Attempt'', severity = ''medium'',
           source = ''network_traffic'',
           description = ''External IP 8.8.8.8 attempting to connect to SSH port 22''\<rparr>]"
    using T1 by (simp add: w a2)
  have c3: "ip_behavior (snd (ml_analyze example_ipaddress no_models 100 no_src_flood
                ml_network_analyzer_init))
       = [(''8.8.8.8'', \<lparr>packets = 1, last_seen = 100, scores = []\<rparr>)]"
    using T1 ne plain short by (simp add: w a3)
  have c4: "map_of (group_flows no_src_flood) '':10.0.0.9:22'' = Some (replicate 11 example_no_src)"
    using T1 by (simp add: dst show_22 same)
  have c5: "\<exists>alerts. fst (ml_analyze example_ipaddress no_models 100 no_src_flood
                  ml_network_analyzer_init) = Inr alerts
         \<and> \<lparr>timestamp = 100, alert_type = ''Potential Brute Force'', severity = ''high'',
             source = ''ml_network_analyzer'',
             description = ''Excessive connection attempts from  to 10.0.0.9:22''\<rparr> \<in> set alerts"
    using T1 plain by (simp add: dst show_22 same)
  have g1: "example_no_src \<in> set (replicate 64 example_no_src)" by simp
  have g2: "with_src (replicate 64 example_no_src) = []"
    by (simp add: with_src_def filter_replicate h2)
  note T2 = empty_src_not_tracked [where p = example_no_src
      and network_data = "replicate 64 example_no_src"
      and lib = example_ipaddress and t = 99 and s = network_analyzer_init and env = first_env
      and m = ml_network_analyzer_init, OF g1 h2]
  have c6: "ip_port_access (snd (analyze example_ipaddress 99 (replicate 64 example_no_src)
        network_analyzer_init)) = []"
    using T2 g2 by (simp add: cleanup_old_entries_def network_analyzer_init_def dict_keys_def)
  have c7: "ip_behavior (snd (ml_analyze example_ipaddress first_env 99 (replicate 64 example_no_src)
        ml_network_analyzer_init)) = []"
    using T2 g2
    by (simp add: ml_network_analyzer_init_def cleanup_old_data_def dict_keys_def split: sum.splits)
  show ?thesis
    by (intro conjI) (rule h1 h2 w c1 c2 plain short c3 c4 c5 g1 g2 c6 c7)+
qed

end
